theory Spec2Isabelle
  imports Complex_Main
begin

section \<open>Numeric values\<close>

text \<open>
  The program computes with numpy float64 values.  They are modelled as exact reals
  together with the three special values that numpy produces instead of raising:
  plus and minus infinity and not-a-number.  Rounding, overflow and the sign of zero are
  not modelled: a finite result is the exact real result, and a zero divisor or a zero
  base counts as positive zero.  The operations below follow the IEEE rules that numpy
  applies to the special values.  The section on float64's range further down adds the
  overflow of a finite result to infinity and the operators of plain Python floats, for
  the property of \<open>calc_utility\<close> that depends on them.
\<close>

datatype npf = Fin real | PInf | NInf | NaN

datatype error =
  ZeroDivisionError | IndexError | ValueError | LinAlgError | OverflowError | ComplexResult

definition inf_sgn :: "real \<Rightarrow> npf" where
  "inf_sgn s = (if 0 < s then PInf else if s < 0 then NInf else NaN)"

fun np_neg :: "npf \<Rightarrow> npf" where
  "np_neg (Fin a) = Fin (- a)"
| "np_neg PInf = NInf"
| "np_neg NInf = PInf"
| "np_neg NaN = NaN"

fun np_add :: "npf \<Rightarrow> npf \<Rightarrow> npf" where
  "np_add (Fin a) (Fin b) = Fin (a + b)"
| "np_add (Fin a) PInf = PInf"
| "np_add (Fin a) NInf = NInf"
| "np_add PInf (Fin b) = PInf"
| "np_add PInf PInf = PInf"
| "np_add PInf NInf = NaN"
| "np_add NInf (Fin b) = NInf"
| "np_add NInf NInf = NInf"
| "np_add NInf PInf = NaN"
| "np_add NaN y = NaN"
| "np_add x NaN = NaN"

definition np_sub :: "npf \<Rightarrow> npf \<Rightarrow> npf" where
  "np_sub x y = np_add x (np_neg y)"

fun np_mul :: "npf \<Rightarrow> npf \<Rightarrow> npf" where
  "np_mul (Fin a) (Fin b) = Fin (a * b)"
| "np_mul (Fin a) PInf = inf_sgn a"
| "np_mul (Fin a) NInf = inf_sgn (- a)"
| "np_mul PInf (Fin b) = inf_sgn b"
| "np_mul NInf (Fin b) = inf_sgn (- b)"
| "np_mul PInf PInf = PInf"
| "np_mul PInf NInf = NInf"
| "np_mul NInf PInf = NInf"
| "np_mul NInf NInf = PInf"
| "np_mul NaN y = NaN"
| "np_mul x NaN = NaN"

fun np_div :: "npf \<Rightarrow> npf \<Rightarrow> npf" where
  "np_div (Fin a) (Fin b) = (if b = 0 then inf_sgn a else Fin (a / b))"
| "np_div (Fin a) PInf = Fin 0"
| "np_div (Fin a) NInf = Fin 0"
| "np_div PInf (Fin b) = (if 0 \<le> b then PInf else NInf)"
| "np_div NInf (Fin b) = (if 0 \<le> b then NInf else PInf)"
| "np_div PInf PInf = NaN"
| "np_div PInf NInf = NaN"
| "np_div NInf PInf = NaN"
| "np_div NInf NInf = NaN"
| "np_div NaN y = NaN"
| "np_div x NaN = NaN"

text \<open>
  \<open>x ** y\<close> with a numpy base and a finite exponent (every exponent of the program is a
  finite Python scalar): anything to the power 0 is 1, a zero base to a negative power is
  infinity, a negative base to a power that is not an integer is not-a-number.
\<close>

definition is_int :: "real \<Rightarrow> bool" where
  "is_int y = (y = of_int \<lfloor>y\<rfloor>)"

definition is_odd_int :: "real \<Rightarrow> bool" where
  "is_odd_int y = (is_int y \<and> odd \<lfloor>y\<rfloor>)"

fun np_pow :: "npf \<Rightarrow> real \<Rightarrow> npf" where
  "np_pow (Fin x) y =
     (if y = 0 then Fin 1
      else if 0 < x then Fin (x powr y)
      else if x = 0 then (if 0 < y then Fin 0 else PInf)
      else if is_odd_int y then Fin (- ((- x) powr y))
      else if is_int y then Fin ((- x) powr y)
      else NaN)"
| "np_pow PInf y = (if y = 0 then Fin 1 else if 0 < y then PInf else Fin 0)"
| "np_pow NInf y =
     (if y = 0 then Fin 1
      else if 0 < y then (if is_odd_int y then NInf else PInf)
      else Fin 0)"
| "np_pow NaN y = (if y = 0 then Fin 1 else NaN)"

fun np_log :: "npf \<Rightarrow> npf" where
  "np_log (Fin x) = (if 0 < x then Fin (ln x) else if x = 0 then NInf else NaN)"
| "np_log PInf = PInf"
| "np_log NInf = NaN"
| "np_log NaN = NaN"

text \<open>Comparisons: every comparison with not-a-number is false.\<close>

fun np_le :: "npf \<Rightarrow> npf \<Rightarrow> bool" where
  "np_le (Fin a) (Fin b) = (a \<le> b)"
| "np_le (Fin a) PInf = True"
| "np_le (Fin a) NInf = False"
| "np_le PInf (Fin b) = False"
| "np_le PInf PInf = True"
| "np_le PInf NInf = False"
| "np_le NInf (Fin b) = True"
| "np_le NInf PInf = True"
| "np_le NInf NInf = True"
| "np_le NaN y = False"
| "np_le x NaN = False"

definition np_gt :: "npf \<Rightarrow> npf \<Rightarrow> bool" where
  "np_gt x y = (np_le y x \<and> x \<noteq> y)"

definition isnan :: "npf \<Rightarrow> bool" where
  "isnan x = (x = NaN)"

text \<open>\<open>np.fmax\<close> ignores a not-a-number operand; \<open>np.minimum\<close> propagates it.\<close>

definition np_fmax :: "npf \<Rightarrow> npf \<Rightarrow> npf" where
  "np_fmax x y = (if isnan x then y else if isnan y then x else if np_le y x then x else y)"

definition np_minimum :: "npf \<Rightarrow> npf \<Rightarrow> npf" where
  "np_minimum x y = (if isnan x \<or> isnan y then NaN else if np_le x y then x else y)"

section \<open>Parameters, solution vectors and the model object\<close>

text \<open>
  The namespace \<open>par\<close> of \<open>HouseholdSpecializationModelClass\<close>;
  \<open>NewHouseholdSpecializationModelClass\<close> has the additional field \<open>eta\<close>.  The scalar
  parameters are finite Python floats.
\<close>

record parameters =
  rho :: real
  nu :: real
  epsilon :: real
  omega :: real
  alpha :: real
  sigma :: real
  wM :: real
  wF :: real
  wF_vec :: "real list"
  beta0_target :: real
  beta1_target :: real

record new_parameters = parameters +
  eta :: real

record solution =
  LM_vec :: "npf list"
  HM_vec :: "npf list"
  LF_vec :: "npf list"
  HF_vec :: "npf list"
  beta0 :: npf
  beta1 :: npf

record 'p model =
  par :: 'p
  sol :: solution

text \<open>A choice \<open>(LM, HM, LF, HF)\<close>, the namespace \<open>opt\<close> that \<open>solve_discrete\<close> returns.\<close>

record choice =
  LM :: npf
  HM :: npf
  LF :: npf
  HF :: npf

text \<open>\<open>np.linspace(a, b, n)\<close>: \<open>n\<close> points from \<open>a\<close> to \<open>b\<close>, the last one set to \<open>b\<close>.\<close>

definition linspace :: "real \<Rightarrow> real \<Rightarrow> nat \<Rightarrow> real list" where
  "linspace a b n =
     (if n = 0 then []
      else if n = 1 then [a]
      else map (\<lambda>i. real i * ((b - a) / real (n - 1)) + a) [0..<n - 1] @ [b])"

definition zeros :: "nat \<Rightarrow> npf list" where
  "zeros n = replicate n (Fin 0)"

text \<open>The two constructors \<open>__init__\<close>.\<close>

definition init_par :: parameters where
  "init_par =
     \<lparr>rho = 2, nu = 1 / 1000, epsilon = 1, omega = 1 / 2, alpha = 1 / 2, sigma = 1,
      wM = 1, wF = 1, wF_vec = linspace (8 / 10) (12 / 10) 5,
      beta0_target = 4 / 10, beta1_target = - (1 / 10)\<rparr>"

definition init_sol :: "real list \<Rightarrow> solution" where
  "init_sol ws =
     \<lparr>LM_vec = zeros (length ws), HM_vec = zeros (length ws),
      LF_vec = zeros (length ws), HF_vec = zeros (length ws),
      beta0 = NaN, beta1 = NaN\<rparr>"

definition init_model :: "parameters model" where
  "init_model = \<lparr>par = init_par, sol = init_sol (wF_vec init_par)\<rparr>"

definition new_init_par :: new_parameters where
  "new_init_par =
     \<lparr>rho = 2, nu = 1 / 1000, epsilon = 1, omega = 1 / 2, alpha = 1 / 2, sigma = 1,
      wM = 1, wF = 1, wF_vec = linspace (8 / 10) (12 / 10) 5,
      beta0_target = 4 / 10, beta1_target = - (1 / 10), eta = 2 / 1000\<rparr>"

definition new_init_model :: "new_parameters model" where
  "new_init_model = \<lparr>par = new_init_par, sol = init_sol (wF_vec new_init_par)\<rparr>"

section \<open>calc_utility\<close>

text \<open>
  The function body in the order of the source, one definition for each of its commented
  parts.  The arguments are numpy values (array elements in \<open>solve_discrete\<close>, elements of
  the optimizer's iterate in \<open>solve_cont\<close>), so the arithmetic on them never raises.  The
  only operation on plain Python floats that can raise is \<open>1/par.epsilon\<close>.
\<close>

text \<open>a. consumption of market goods: \<open>C = par.wM*LM + par.wF*LF\<close>.\<close>

definition market_consumption :: "'a parameters_scheme \<Rightarrow> npf \<Rightarrow> npf \<Rightarrow> npf" where
  "market_consumption p lm lf = np_add (np_mul (Fin (wM p)) lm) (np_mul (Fin (wF p)) lf)"

text \<open>
  b. home production.  The third branch assigns the floored values to the local variables
  \<open>HM\<close> and \<open>HF\<close> themselves, so the function returns \<open>H\<close> together with the values that
  \<open>HM\<close> and \<open>HF\<close> hold afterwards.
\<close>

definition home_production :: "'a parameters_scheme \<Rightarrow> npf \<Rightarrow> npf \<Rightarrow> npf \<times> npf \<times> npf" where
  "home_production p hm hf =
     (if sigma p = 0 then (np_minimum hm hf, hm, hf)
      else if sigma p = 1 then
        (np_mul (np_pow hm (1 - alpha p)) (np_pow hf (alpha p)), hm, hf)
      else
        (let hm' = np_fmax hm (Fin (1 / 10 ^ 7));
             hf' = np_fmax hf (Fin (1 / 10 ^ 7));
             inside =
               np_add (np_mul (Fin (1 - alpha p)) (np_pow hm' ((sigma p - 1) / sigma p)))
                      (np_mul (Fin (alpha p)) (np_pow hf' ((sigma p - 1) / sigma p)))
         in (np_pow inside (sigma p / (sigma p - 1)), hm', hf')))"

text \<open>c. total consumption utility.\<close>

definition composite_good :: "'a parameters_scheme \<Rightarrow> npf \<Rightarrow> npf \<Rightarrow> npf" where
  "composite_good p c h = np_mul (np_pow c (omega p)) (np_pow h (1 - omega p))"

definition consumption_utility :: "'a parameters_scheme \<Rightarrow> npf \<Rightarrow> npf \<Rightarrow> npf" where
  "consumption_utility p c h =
     (let q = composite_good p c h
      in np_div (np_pow (np_fmax q (Fin (1 / 10 ^ 8))) (1 - rho p)) (Fin (1 - rho p)))"

text \<open>
  d. disutility of work, for \<open>par.epsilon\<close> other than 0 (\<open>epsilon'\<close> is the local \<open>epsilon_\<close>).  Variant A is
  \<open>HouseholdSpecializationModelClass\<close>, variant B is
  \<open>NewHouseholdSpecializationModelClass\<close>.
\<close>

definition disutility :: "'a parameters_scheme \<Rightarrow> npf \<Rightarrow> npf \<Rightarrow> npf \<Rightarrow> npf \<Rightarrow> npf" where
  "disutility p lm hm lf hf =
     (let epsilon' = 1 + 1 / epsilon p;
          tm = np_add lm hm;
          tf = np_add lf hf
      in np_mul (Fin (nu p))
           (np_add (np_div (np_pow tm epsilon') (Fin epsilon'))
                   (np_div (np_pow tf epsilon') (Fin epsilon'))))"

definition new_disutility :: "'a new_parameters_scheme \<Rightarrow> npf \<Rightarrow> npf \<Rightarrow> npf \<Rightarrow> npf \<Rightarrow> npf" where
  "new_disutility p lm hm lf hf =
     (let epsilon' = 1 + 1 / epsilon p;
          tm = np_add lm hm;
          tf = np_add lf hf
      in np_add (np_mul (Fin (nu p)) (np_div (np_pow tm epsilon') (Fin epsilon')))
                (np_mul (Fin (eta p)) (np_div (np_pow tf epsilon') (Fin epsilon'))))"

text \<open>
  The value \<open>utility - disutility\<close> that the body returns when it does not raise.  The
  disutility is computed from the local variables \<open>HM\<close> and \<open>HF\<close> as part b leaves them.
\<close>

definition calc_value :: "'a parameters_scheme \<Rightarrow> npf \<Rightarrow> npf \<Rightarrow> npf \<Rightarrow> npf \<Rightarrow> npf" where
  "calc_value p lm hm lf hf =
     (let c = market_consumption p lm lf;
          (h, hm', hf') = home_production p hm hf;
          utility = consumption_utility p c h
      in np_sub utility (disutility p lm hm' lf hf'))"

definition new_calc_value :: "'a new_parameters_scheme \<Rightarrow> npf \<Rightarrow> npf \<Rightarrow> npf \<Rightarrow> npf \<Rightarrow> npf" where
  "new_calc_value p lm hm lf hf =
     (let c = market_consumption p lm lf;
          (h, hm', hf') = home_production p hm hf;
          utility = consumption_utility p c h
      in np_sub utility (new_disutility p lm hm' lf hf'))"

text \<open>The call on scalars: \<open>1/par.epsilon\<close> raises when \<open>par.epsilon\<close> is 0.\<close>

definition calc_utility ::
  "'a parameters_scheme \<Rightarrow> npf \<Rightarrow> npf \<Rightarrow> npf \<Rightarrow> npf \<Rightarrow> error + npf" where
  "calc_utility p lm hm lf hf =
     (if epsilon p = 0 then Inl ZeroDivisionError else Inr (calc_value p lm hm lf hf))"

definition new_calc_utility ::
  "'a new_parameters_scheme \<Rightarrow> npf \<Rightarrow> npf \<Rightarrow> npf \<Rightarrow> npf \<Rightarrow> error + npf" where
  "new_calc_utility p lm hm lf hf =
     (if epsilon p = 0 then Inl ZeroDivisionError else Inr (new_calc_value p lm hm lf hf))"

text \<open>
  The call on four arrays of equal length, as \<open>solve_discrete\<close> makes it: the arithmetic is
  element by element, and the scalar \<open>1/par.epsilon\<close> raises once for the whole call.
\<close>

definition calc_utility_arr :: "'a parameters_scheme \<Rightarrow> choice list \<Rightarrow> error + npf list" where
  "calc_utility_arr p cs =
     (if epsilon p = 0 then Inl ZeroDivisionError
      else Inr (map (\<lambda>c. calc_value p (LM c) (HM c) (LF c) (HF c)) cs))"

definition new_calc_utility_arr ::
  "'a new_parameters_scheme \<Rightarrow> choice list \<Rightarrow> error + npf list" where
  "new_calc_utility_arr p cs =
     (if epsilon p = 0 then Inl ZeroDivisionError
      else Inr (map (\<lambda>c. new_calc_value p (LM c) (HM c) (LF c) (HF c)) cs))"

text \<open>
  The method as a state transformer on the model object.  It reads \<open>self.par\<close>, binds
  \<open>self.sol\<close> to a local name that it never uses, and assigns to local variables only.
\<close>

definition calc_utility_method ::
  "parameters model \<Rightarrow> npf \<Rightarrow> npf \<Rightarrow> npf \<Rightarrow> npf \<Rightarrow> error + npf \<times> parameters model" where
  "calc_utility_method m lm hm lf hf =
     (let p = par m; s = sol m
      in case calc_utility p lm hm lf hf of
           Inl e \<Rightarrow> Inl e
         | Inr v \<Rightarrow> Inr (v, m))"

section \<open>solve_discrete\<close>

text \<open>
  \<open>np.meshgrid(x,x,x,x)\<close> with its default \<open>xy\<close> indexing, then \<open>ravel\<close>: in the flattened
  arrays the index of \<open>HM\<close> varies slowest, then that of \<open>LM\<close>, then \<open>LF\<close>, and \<open>HF\<close>
  fastest.  The four arrays are kept as one list of rows, so that \<open>LM[j]\<close>, \<open>HM[j]\<close>,
  \<open>LF[j]\<close>, \<open>HF[j]\<close> are the fields of row \<open>j\<close>.
\<close>

definition meshgrid_ravel :: "real list \<Rightarrow> choice list" where
  "meshgrid_ravel x =
     concat (map (\<lambda>hm. concat (map (\<lambda>lm. concat (map (\<lambda>lf.
       map (\<lambda>hf. \<lparr>LM = Fin lm, HM = Fin hm, LF = Fin lf, HF = Fin hf\<rparr>) x) x)) x)) x)"

text \<open>The mask \<open>I = (LM+HM > 24) | (LF+HF > 24)\<close> and the assignment \<open>u[I] = -np.inf\<close>.\<close>

definition constraint_broken :: "choice \<Rightarrow> bool" where
  "constraint_broken c =
     (np_gt (np_add (LM c) (HM c)) (Fin 24) \<or> np_gt (np_add (LF c) (HF c)) (Fin 24))"

definition mask_assign :: "npf list \<Rightarrow> bool list \<Rightarrow> npf list" where
  "mask_assign u I = map (\<lambda>(v, b). if b then NInf else v) (zip u I)"

text \<open>
  \<open>np.argmax\<close> on a float array, as numpy's loop computes it: the index moves to an
  element when the element is not less than or equal to the running maximum, and the
  loop stops at the first not-a-number.  An empty array raises.
\<close>

fun argmax_loop :: "npf \<Rightarrow> nat \<Rightarrow> nat \<Rightarrow> npf list \<Rightarrow> nat" where
  "argmax_loop mp mi i [] = mi"
| "argmax_loop mp mi i (v # vs) =
     (if \<not> np_le v mp then (if isnan v then i else argmax_loop v i (Suc i) vs)
      else argmax_loop mp mi (Suc i) vs)"

fun np_argmax :: "npf list \<Rightarrow> error + nat" where
  "np_argmax [] = Inl ValueError"
| "np_argmax (v # vs) = (if isnan v then Inr 0 else Inr (argmax_loop v 0 1 vs))"

text \<open>
  The solver on a grid vector \<open>x\<close>; the source fixes \<open>x = np.linspace(0,24,49)\<close>.  The
  printing under \<open>do_print\<close> does not change what is returned and is left out.
\<close>

definition solve_discrete_on ::
  "('p \<Rightarrow> choice list \<Rightarrow> error + npf list) \<Rightarrow> real list \<Rightarrow> 'p \<Rightarrow> error + choice" where
  "solve_discrete_on cu x p =
     (let cs = meshgrid_ravel x
      in case cu p cs of
           Inl e \<Rightarrow> Inl e
         | Inr u \<Rightarrow>
             (let I = map constraint_broken cs;
                  u' = mask_assign u I
              in case np_argmax u' of
                   Inl e \<Rightarrow> Inl e
                 | Inr j \<Rightarrow> Inr (cs ! j)))"

definition solve_discrete :: "'a parameters_scheme \<Rightarrow> error + choice" where
  "solve_discrete p = solve_discrete_on calc_utility_arr (linspace 0 24 49) p"

definition new_solve_discrete :: "'a new_parameters_scheme \<Rightarrow> error + choice" where
  "new_solve_discrete p = solve_discrete_on new_calc_utility_arr (linspace 0 24 49) p"

section \<open>Sequencing of calls that can raise\<close>

fun ebind :: "error + 'a \<Rightarrow> ('a \<Rightarrow> error + 'b) \<Rightarrow> error + 'b" where
  "ebind (Inl e) f = Inl e"
| "ebind (Inr v) f = f v"

text \<open>Reading and writing an array element; an index out of range raises.\<close>

definition get :: "'a list \<Rightarrow> nat \<Rightarrow> error + 'a" where
  "get xs i = (if i < length xs then Inr (xs ! i) else Inl IndexError)"

definition store :: "'a list \<Rightarrow> nat \<Rightarrow> 'a \<Rightarrow> error + 'a list" where
  "store xs i v = (if i < length xs then Inr (xs[i := v]) else Inl IndexError)"

section \<open>solve_cont\<close>

text \<open>
  \<open>scipy.optimize.minimize\<close> with \<open>method='SLSQP'\<close> is a library routine and a parameter
  of the model: a function of the objective, the initial guess, the bounds, the
  constraint functions and the tolerance that returns \<open>res.x\<close> or raises.
\<close>

type_synonym slsqp =
  "(npf list \<Rightarrow> error + npf) \<Rightarrow> real list \<Rightarrow> (real \<times> real) list \<Rightarrow>
   (npf list \<Rightarrow> error + npf) list \<Rightarrow> real option \<Rightarrow> error + npf list"

definition constraints_M :: "npf list \<Rightarrow> error + npf" where
  "constraints_M x =
     ebind (get x 0) (\<lambda>x0. ebind (get x 1) (\<lambda>x1. Inr (np_sub (np_sub (Fin 24) x0) x1)))"

definition constraints_F :: "npf list \<Rightarrow> error + npf" where
  "constraints_F x =
     ebind (get x 2) (\<lambda>x2. ebind (get x 3) (\<lambda>x3. Inr (np_sub (np_sub (Fin 24) x2) x3)))"

definition bounds :: "(real \<times> real) list" where
  "bounds = replicate 4 (0, 24)"

definition initial_guess :: "real list" where
  "initial_guess = replicate 4 4"

text \<open>The objective \<open>lambda x: -self.calc_utility(x[0],x[1],x[2],x[3])\<close>.\<close>

definition neg_utility ::
  "('p \<Rightarrow> npf \<Rightarrow> npf \<Rightarrow> npf \<Rightarrow> npf \<Rightarrow> error + npf) \<Rightarrow> 'p \<Rightarrow> npf list \<Rightarrow> error + npf" where
  "neg_utility cu p x =
     ebind (get x 0) (\<lambda>x0. ebind (get x 1) (\<lambda>x1. ebind (get x 2) (\<lambda>x2. ebind (get x 3) (\<lambda>x3.
       ebind (cu p x0 x1 x2 x3) (\<lambda>v. Inr (np_neg v))))))"

definition solve_cont :: "slsqp \<Rightarrow> 'a parameters_scheme \<Rightarrow> error + npf list" where
  "solve_cont minimize p =
     minimize (neg_utility calc_utility p) initial_guess bounds
       [constraints_M, constraints_F] (Some (10 / 10 ^ 8))"

definition new_solve_cont :: "slsqp \<Rightarrow> 'a new_parameters_scheme \<Rightarrow> error + npf list" where
  "new_solve_cont minimize p =
     minimize (neg_utility new_calc_utility p) initial_guess bounds
       [constraints_M, constraints_F] None"

section \<open>solve_wF_vec\<close>

text \<open>
  One pass of the loop body for the index \<open>it\<close>.  The discrete branch calls the solver and
  drops its result; the continuous branch writes the four components of the result.
\<close>

definition sweep_step ::
  "('a parameters_scheme \<Rightarrow> error + choice) \<Rightarrow> ('a parameters_scheme \<Rightarrow> error + npf list) \<Rightarrow>
   bool \<Rightarrow> nat \<Rightarrow> 'a parameters_scheme model \<Rightarrow> error + 'a parameters_scheme model" where
  "sweep_step sd sc discrete it m =
     ebind (get (wF_vec (par m)) it) (\<lambda>w.
       let m1 = m\<lparr>par := (par m)\<lparr>wF := w\<rparr>\<rparr>
       in if discrete then ebind (sd (par m1)) (\<lambda>res. Inr m1)
          else
            ebind (sc (par m1)) (\<lambda>res.
            ebind (get res 0) (\<lambda>r0. ebind (store (LM_vec (sol m1)) it r0) (\<lambda>v0.
            ebind (get res 1) (\<lambda>r1. ebind (store (HM_vec (sol m1)) it r1) (\<lambda>v1.
            ebind (get res 2) (\<lambda>r2. ebind (store (LF_vec (sol m1)) it r2) (\<lambda>v2.
            ebind (get res 3) (\<lambda>r3. ebind (store (HF_vec (sol m1)) it r3) (\<lambda>v3.
              Inr (m1\<lparr>sol := (sol m1)\<lparr>LM_vec := v0, HM_vec := v1,
                                       LF_vec := v2, HF_vec := v3\<rparr>\<rparr>)))))))))))"

fun sweep_loop ::
  "(nat \<Rightarrow> 'm \<Rightarrow> error + 'm) \<Rightarrow> nat list \<Rightarrow> 'm \<Rightarrow> error + 'm" where
  "sweep_loop step [] m = Inr m"
| "sweep_loop step (it # its) m =
     (case step it m of Inl e \<Rightarrow> Inl e | Inr m' \<Rightarrow> sweep_loop step its m')"

definition solve_wF_vec_with ::
  "('a parameters_scheme \<Rightarrow> error + choice) \<Rightarrow> ('a parameters_scheme \<Rightarrow> error + npf list) \<Rightarrow>
   bool \<Rightarrow> 'a parameters_scheme model \<Rightarrow> error + 'a parameters_scheme model" where
  "solve_wF_vec_with sd sc discrete m =
     sweep_loop (sweep_step sd sc discrete) [0..<length (wF_vec (par m))] m"

definition solve_wF_vec ::
  "slsqp \<Rightarrow> bool \<Rightarrow> 'a parameters_scheme model \<Rightarrow> error + 'a parameters_scheme model" where
  "solve_wF_vec minimize discrete m =
     solve_wF_vec_with solve_discrete (solve_cont minimize) discrete m"

definition new_solve_wF_vec ::
  "slsqp \<Rightarrow> bool \<Rightarrow> 'a new_parameters_scheme model \<Rightarrow> error + 'a new_parameters_scheme model" where
  "new_solve_wF_vec minimize discrete m =
     solve_wF_vec_with new_solve_discrete (new_solve_cont minimize) discrete m"

section \<open>run_regression\<close>

text \<open>
  \<open>np.linalg.lstsq\<close> is a library routine and a parameter of the model: a function of the
  design matrix (a list of rows) and the right-hand side that returns the solution
  vector or raises.  An operation on two arrays works element by element when the
  lengths agree, repeats an array of length one, and raises otherwise.
\<close>

type_synonym lstsq = "npf list list \<Rightarrow> npf list \<Rightarrow> error + npf list"

definition broadcast2 :: "(npf \<Rightarrow> npf \<Rightarrow> npf) \<Rightarrow> npf list \<Rightarrow> npf list \<Rightarrow> error + npf list" where
  "broadcast2 f xs ys =
     (if length xs = length ys then Inr (map2 f xs ys)
      else if length xs = 1 then Inr (map (f (hd xs)) ys)
      else if length ys = 1 then Inr (map (\<lambda>v. f v (hd ys)) xs)
      else Inl ValueError)"

definition regressor :: "'a parameters_scheme \<Rightarrow> npf list" where
  "regressor p = map (\<lambda>w. np_log (np_div (Fin w) (Fin (wM p)))) (wF_vec p)"

definition design_matrix :: "npf list \<Rightarrow> npf list list" where
  "design_matrix x = map (\<lambda>v. [Fin 1, v]) x"

definition run_regression ::
  "lstsq \<Rightarrow> 'a parameters_scheme model \<Rightarrow> error + 'a parameters_scheme model" where
  "run_regression solver m =
     (let x = regressor (par m)
      in ebind (broadcast2 np_div (HF_vec (sol m)) (HM_vec (sol m))) (\<lambda>q.
           let y = map np_log q;
               A = design_matrix x
           in ebind (solver A y) (\<lambda>b.
                case b of
                  [b0, b1] \<Rightarrow> Inr (m\<lparr>sol := (sol m)\<lparr>beta0 := b0, beta1 := b1\<rparr>\<rparr>)
                | _ \<Rightarrow> Inl ValueError)))"

section \<open>estimate and est\<close>

text \<open>The value \<open>(par.beta0_target - sol.beta0)**2 + (par.beta1_target - sol.beta1)**2\<close>.\<close>

definition objective :: "'a parameters_scheme model \<Rightarrow> npf" where
  "objective m =
     np_add (np_pow (np_sub (Fin (beta0_target (par m))) (beta0 (sol m))) 2)
            (np_pow (np_sub (Fin (beta1_target (par m))) (beta1 (sol m))) 2)"

text \<open>
  The trial vector \<open>x\<close> comes from the outer search, which keeps it inside the finite
  bounds, so its entries are finite.
\<close>

definition est ::
  "lstsq \<Rightarrow> slsqp \<Rightarrow> real list \<Rightarrow> 'a parameters_scheme model \<Rightarrow>
   error + npf \<times> 'a parameters_scheme model" where
  "est solver minimize x m =
     ebind (get x 0) (\<lambda>x0. let m1 = m\<lparr>par := (par m)\<lparr>alpha := x0\<rparr>\<rparr> in
     ebind (get x 1) (\<lambda>x1. let m2 = m1\<lparr>par := (par m1)\<lparr>sigma := x1\<rparr>\<rparr> in
     ebind (solve_wF_vec minimize False m2) (\<lambda>m3.
     ebind (run_regression solver m3) (\<lambda>m4.
       Inr (objective m4, m4)))))"

definition new_est ::
  "lstsq \<Rightarrow> slsqp \<Rightarrow> real list \<Rightarrow> 'a new_parameters_scheme model \<Rightarrow>
   error + npf \<times> 'a new_parameters_scheme model" where
  "new_est solver minimize x m =
     ebind (get x 0) (\<lambda>x0. let m1 = m\<lparr>par := (par m)\<lparr>sigma := x0\<rparr>\<rparr> in
     ebind (new_solve_wF_vec minimize False m1) (\<lambda>m2.
     ebind (run_regression solver m2) (\<lambda>m3.
       Inr (objective m3, m3))))"

text \<open>
  \<open>scipy.optimize.minimize\<close> with \<open>method='Nelder-Mead'\<close> is a parameter as well.  Its
  objective changes the model object, so it threads the model through its calls and
  returns \<open>result.x\<close> with the model as the last trial left it.
\<close>

type_synonym 'm nelder_mead =
  "(real list \<Rightarrow> 'm \<Rightarrow> error + npf \<times> 'm) \<Rightarrow> real list \<Rightarrow> (real \<times> real) list \<Rightarrow> 'm \<Rightarrow>
   error + real list \<times> 'm"

definition estimate ::
  "'a parameters_scheme model nelder_mead \<Rightarrow> lstsq \<Rightarrow> slsqp \<Rightarrow>
   real option \<Rightarrow> real option \<Rightarrow> bool \<Rightarrow> 'a parameters_scheme model \<Rightarrow>
   error + real list \<times> 'a parameters_scheme model" where
  "estimate search solver minimize alpha_arg sigma_arg do_print m =
     search (\<lambda>x. est solver minimize x) [5 / 10, 1 / 10] (replicate 2 (1 / 100, 99 / 100)) m"

definition new_estimate ::
  "'a new_parameters_scheme model nelder_mead \<Rightarrow> lstsq \<Rightarrow> slsqp \<Rightarrow>
   real option \<Rightarrow> bool \<Rightarrow> 'a new_parameters_scheme model \<Rightarrow>
   error + real list \<times> 'a new_parameters_scheme model" where
  "new_estimate search solver minimize sigma_arg do_print m =
     search (\<lambda>x. new_est solver minimize x) [1 / 10] [(1 / 100, 99 / 100)] m"

section \<open>calc_utility on float64's range, for Python floats and numpy values\<close>

text \<open>
  A refinement of \<open>calc_utility\<close> of variant A for the properties that depend on the range of float64
  and on who carries out an operation.  A value is a float64 together with its kind: a
  plain Python float or a numpy value (a numpy scalar or an array element).  A finite
  result beyond the largest float64 overflows: to infinity, or to \<open>OverflowError\<close> in the
  power of two Python floats.  Rounding and underflow are not modelled.

  An arithmetic operation with a numpy operand is numpy's and never raises.  Between
  Python floats, \<open>+\<close>, \<open>-\<close> and \<open>*\<close> do not raise either, \<open>/\<close> raises on a zero divisor, and
  \<open>**\<close> raises on a zero base with a negative exponent and on overflow, and leaves the
  floats for a negative base with an exponent that is not an integer (the result is a
  complex number; the model stops there).  The parameters are Python floats.
\<close>

datatype kind = Py | Np

type_synonym val = "kind \<times> npf"

definition max_float :: real where
  "max_float = (2 ^ 53 - 1) * 2 ^ 971"

fun ovf :: "npf \<Rightarrow> npf" where
  "ovf (Fin x) = (if max_float < x then PInf else if x < - max_float then NInf else Fin x)"
| "ovf PInf = PInf"
| "ovf NInf = NInf"
| "ovf NaN = NaN"

definition join :: "kind \<Rightarrow> kind \<Rightarrow> kind" where
  "join a b = (if a = Py \<and> b = Py then Py else Np)"

definition f_add :: "val \<Rightarrow> val \<Rightarrow> val" where
  "f_add a b = (join (fst a) (fst b), ovf (np_add (snd a) (snd b)))"

definition f_sub :: "val \<Rightarrow> val \<Rightarrow> val" where
  "f_sub a b = (join (fst a) (fst b), ovf (np_sub (snd a) (snd b)))"

definition f_mul :: "val \<Rightarrow> val \<Rightarrow> val" where
  "f_mul a b = (join (fst a) (fst b), ovf (np_mul (snd a) (snd b)))"

text \<open>Division by a parameter expression \<open>d\<close>, a Python float.\<close>

definition f_div :: "val \<Rightarrow> real \<Rightarrow> error + val" where
  "f_div a d =
     (if fst a = Py \<and> d = 0 then Inl ZeroDivisionError
      else Inr (fst a, ovf (np_div (snd a) (Fin d))))"

text \<open>The power of a Python float to a finite Python float \<open>y\<close>.\<close>

fun py_pow :: "npf \<Rightarrow> real \<Rightarrow> error + npf" where
  "py_pow (Fin x) y =
     (if y = 0 then Inr (Fin 1)
      else if x = 0 \<and> y < 0 then Inl ZeroDivisionError
      else if x < 0 \<and> \<not> is_int y then Inl ComplexResult
      else (case ovf (np_pow (Fin x) y) of
              Fin r \<Rightarrow> Inr (Fin r)
            | _ \<Rightarrow> Inl OverflowError))"
| "py_pow PInf y = Inr (np_pow PInf y)"
| "py_pow NInf y = Inr (np_pow NInf y)"
| "py_pow NaN y = Inr (np_pow NaN y)"

definition f_pow :: "val \<Rightarrow> real \<Rightarrow> error + val" where
  "f_pow a y =
     (case fst a of
        Np \<Rightarrow> Inr (Np, ovf (np_pow (snd a) y))
      | Py \<Rightarrow> (case py_pow (snd a) y of Inl e \<Rightarrow> Inl e | Inr r \<Rightarrow> Inr (Py, r)))"

text \<open>\<open>np.fmax\<close> with a constant and \<open>np.minimum\<close>: the result is a numpy value.\<close>

definition f_fmax :: "val \<Rightarrow> real \<Rightarrow> val" where
  "f_fmax a c = (Np, np_fmax (snd a) (Fin c))"

definition f_minimum :: "val \<Rightarrow> val \<Rightarrow> val" where
  "f_minimum a b = (Np, np_minimum (snd a) (snd b))"

text \<open>Part b of the body: \<open>H\<close> and the values of \<open>HM\<close> and \<open>HF\<close> afterwards.\<close>

definition home_production_call ::
  "'a parameters_scheme \<Rightarrow> val \<Rightarrow> val \<Rightarrow> error + val \<times> val \<times> val" where
  "home_production_call p hm hf =
     (if sigma p = 0 then Inr (f_minimum hm hf, hm, hf)
      else if sigma p = 1 then
        ebind (f_pow hm (1 - alpha p)) (\<lambda>a.
        ebind (f_pow hf (alpha p)) (\<lambda>b.
          Inr (f_mul a b, hm, hf)))
      else
        (let hm' = f_fmax hm (1 / 10 ^ 7);
             hf' = f_fmax hf (1 / 10 ^ 7)
         in ebind (f_pow hm' ((sigma p - 1) / sigma p)) (\<lambda>a.
            ebind (f_pow hf' ((sigma p - 1) / sigma p)) (\<lambda>b.
              let inside = f_add (f_mul (Py, Fin (1 - alpha p)) a) (f_mul (Py, Fin (alpha p)) b)
              in ebind (f_pow inside (sigma p / (sigma p - 1))) (\<lambda>h.
                   Inr (h, hm', hf'))))))"

text \<open>Parts a, c and d of the body, and the whole body, in the order of the source.\<close>

definition market_consumption_call :: "'a parameters_scheme \<Rightarrow> val \<Rightarrow> val \<Rightarrow> val" where
  "market_consumption_call p lm lf = f_add (f_mul (Py, Fin (wM p)) lm) (f_mul (Py, Fin (wF p)) lf)"

definition consumption_utility_call :: "'a parameters_scheme \<Rightarrow> val \<Rightarrow> val \<Rightarrow> error + val" where
  "consumption_utility_call p c h =
     ebind (f_pow c (omega p)) (\<lambda>a.
     ebind (f_pow h (1 - omega p)) (\<lambda>b.
       let q = f_mul a b
       in ebind (f_pow (f_fmax q (1 / 10 ^ 8)) (1 - rho p)) (\<lambda>w.
            f_div w (1 - rho p))))"

definition disutility_call ::
  "'a parameters_scheme \<Rightarrow> val \<Rightarrow> val \<Rightarrow> val \<Rightarrow> val \<Rightarrow> error + val" where
  "disutility_call p lm hm lf hf =
     (if epsilon p = 0 then Inl ZeroDivisionError
      else
        (let epsilon' = 1 + 1 / epsilon p;
             tm = f_add lm hm;
             tf = f_add lf hf
         in ebind (f_pow tm epsilon') (\<lambda>t1.
            ebind (f_div t1 epsilon') (\<lambda>t2.
            ebind (f_pow tf epsilon') (\<lambda>t3.
            ebind (f_div t3 epsilon') (\<lambda>t4.
              Inr (f_mul (Py, Fin (nu p)) (f_add t2 t4))))))))"

definition calc_utility_call ::
  "'a parameters_scheme \<Rightarrow> val \<Rightarrow> val \<Rightarrow> val \<Rightarrow> val \<Rightarrow> error + val" where
  "calc_utility_call p lm hm lf hf =
     (let c = market_consumption_call p lm lf
      in ebind (home_production_call p hm hf) (\<lambda>(h, hm', hf').
         ebind (consumption_utility_call p c h) (\<lambda>utility.
         ebind (disutility_call p lm hm' lf hf') (\<lambda>d.
           Inr (f_sub utility d)))))"

section \<open>Specification-side definitions\<close>

text \<open>
  The three-branch rule for home production as the specification words it, on finite
  \<open>HM\<close> and \<open>HF\<close>; a power is the program's power operator.
\<close>

definition H_rule :: "'a parameters_scheme \<Rightarrow> real \<Rightarrow> real \<Rightarrow> npf" where
  "H_rule p hm hf =
     (if sigma p = 0 then Fin (min hm hf)
      else if sigma p = 1 then np_mul (np_pow (Fin hm) (1 - alpha p)) (np_pow (Fin hf) (alpha p))
      else (let hm' = max hm (1 / 10 ^ 7);
                hf' = max hf (1 / 10 ^ 7);
                r = (sigma p - 1) / sigma p
            in np_pow (Fin ((1 - alpha p) * hm' powr r + alpha p * hf' powr r))
                 (sigma p / (sigma p - 1))))"


text \<open>The time-budget constraint of a choice: \<open>LM+HM \<le> 24\<close> and \<open>LF+HF \<le> 24\<close>.\<close>

definition feasible :: "choice \<Rightarrow> bool" where
  "feasible c =
     (np_le (np_add (LM c) (HM c)) (Fin 24) \<and> np_le (np_add (LF c) (HF c)) (Fin 24))"

text \<open>
  Index \<open>j\<close> is the argmax of the array \<open>u\<close> with the first occurrence on ties, in numpy's
  sense: without a not-a-number in \<open>u\<close>, no element exceeds \<open>u[j]\<close> and every element
  before \<open>j\<close> is strictly smaller; with one, \<open>j\<close> is the index of the first.
\<close>

definition first_max :: "npf list \<Rightarrow> nat \<Rightarrow> bool" where
  "first_max u j =
     (j < length u \<and>
      (if NaN \<in> set u then u ! j = NaN \<and> NaN \<notin> set (take j u)
       else list_all (\<lambda>v. np_le v (u ! j)) u \<and> list_all (\<lambda>v. \<not> np_le (u ! j) v) (take j u)))"

text \<open>The four solution vectors of the model object, in the order \<open>LM\<close>, \<open>HM\<close>, \<open>LF\<close>, \<open>HF\<close>.\<close>

definition vecs :: "solution \<Rightarrow> npf list list" where
  "vecs s = [LM_vec s, HM_vec s, LF_vec s, HF_vec s]"

text \<open>
  The residual sum of squares of the line \<open>y = b0 + b1*x\<close> on the data \<open>xs\<close>, \<open>ys\<close>: what
  an ordinary-least-squares fit minimises.
\<close>

definition rss :: "real list \<Rightarrow> real list \<Rightarrow> real \<Rightarrow> real \<Rightarrow> real" where
  "rss xs ys b0 b1 = sum_list (map (\<lambda>(x, y). (b0 + b1 * x - y)\<^sup>2) (zip xs ys))"

text \<open>
  Concrete library routines, for applying the theorems to a run of the program.  For
  \<open>np.linalg.lstsq\<close>: the closed form of simple regression, on a finite design matrix of
  a column of ones and one regressor.
\<close>

definition ols_fit :: "real list \<Rightarrow> real list \<Rightarrow> real \<times> real" where
  "ols_fit xs ys =
     (let n = real (length xs);
          sx = sum_list xs;
          sy = sum_list ys;
          sxx = sum_list (map (\<lambda>x. x * x) xs);
          sxy = sum_list (map (\<lambda>(x, y). x * y) (zip xs ys));
          d = n * sxx - sx * sx;
          b1 = (n * sxy - sx * sy) / d;
          b0 = (sy - b1 * sx) / n
      in (b0, b1))"

fun is_fin :: "npf \<Rightarrow> bool" where
  "is_fin (Fin x) = True"
| "is_fin v = False"

fun the_fin :: "npf \<Rightarrow> real" where
  "the_fin (Fin x) = x"
| "the_fin v = 0"

definition ols_solver :: lstsq where
  "ols_solver A y =
     (if list_all (\<lambda>r. length r = 2 \<and> list_all is_fin r) A \<and> list_all is_fin y
         \<and> length A = length y
      then (let (b0, b1) = ols_fit (map (\<lambda>r. the_fin (r ! 1)) A) (map the_fin y)
            in Inr [Fin b0, Fin b1])
      else Inl LinAlgError)"

text \<open>For the SLSQP optimizer: a routine that returns its initial guess.\<close>

definition guess_solver :: slsqp where
  "guess_solver f x0 bnds cons tol = Inr (map Fin x0)"

text \<open>
  The composite good, the consumption-utility term and the disutility term as the
  specification words them: \<open>Q = C^omega * H^(1-omega)\<close>,
  \<open>utility_core = max(Q, 1e-8)^(1-rho) / (1-rho)\<close> and
  \<open>disutility = nu * (TM^e/e + TF^e/e)\<close>.
\<close>

definition composite_good_spec :: "real \<Rightarrow> val \<Rightarrow> val \<Rightarrow> error + val" where
  "composite_good_spec om c h =
     ebind (f_pow c om) (\<lambda>a. ebind (f_pow h (1 - om)) (\<lambda>b. Inr (f_mul a b)))"

definition utility_core_spec :: "real \<Rightarrow> val \<Rightarrow> error + val" where
  "utility_core_spec rh q =
     ebind (f_pow (f_fmax q (1 / 10 ^ 8)) (1 - rh)) (\<lambda>w. f_div w (1 - rh))"

definition disutility_spec :: "real \<Rightarrow> real \<Rightarrow> val \<Rightarrow> val \<Rightarrow> error + val" where
  "disutility_spec n e tm tf =
     ebind (f_pow tm e) (\<lambda>t1. ebind (f_div t1 e) (\<lambda>t2.
     ebind (f_pow tf e) (\<lambda>t3. ebind (f_div t3 e) (\<lambda>t4.
       Inr (f_mul (Py, Fin n) (f_add t2 t4))))))"

section \<open>Properties of calc_utility\<close>

lemma np_fmax_Fin [simp]: "np_fmax (Fin a) (Fin b) = Fin (max a b)"
  by (simp add: np_fmax_def isnan_def max_def)

lemma np_minimum_Fin [simp]: "np_minimum (Fin a) (Fin b) = Fin (min a b)"
  by (simp add: np_minimum_def isnan_def min_def)

lemma np_pow_pos: "0 < x \<Longrightarrow> y \<noteq> 0 \<Longrightarrow> np_pow (Fin x) y = Fin (x powr y)"
  by simp

lemma np_pow_pos': "0 < x \<Longrightarrow> np_pow (Fin x) y = Fin (x powr y)"
  by simp

lemma home_production_Fin:
  "home_production p (Fin hm) (Fin hf) =
     (if sigma p = 0 \<or> sigma p = 1 then (fst (home_production p (Fin hm) (Fin hf)), Fin hm, Fin hf)
      else (fst (home_production p (Fin hm) (Fin hf)), Fin (max hm (1 / 10 ^ 7)), Fin (max hf (1 / 10 ^ 7))))"
  by (simp add: home_production_def Let_def)

text \<open>
  Claim C2.  For a choice with \<open>HM\<close> and \<open>HF\<close> in \<open>[0,24]\<close> and every \<open>alpha\<close>, the home
  production \<open>H\<close> that \<open>calc_utility\<close> computes follows the three-branch rule on
  \<open>sigma\<close>: the minimum of \<open>HM\<close> and \<open>HF\<close> for \<open>sigma = 0\<close> (so 3 for \<open>HM = 3\<close>, \<open>HF = 7\<close>,
  whatever \<open>alpha\<close> is), the Cobb-Douglas product for \<open>sigma = 1\<close>, and otherwise the CES
  aggregate of \<open>HM\<close> and \<open>HF\<close> floored at \<open>1e-7\<close>.
\<close>

theorem home_production_rule:
  assumes "0 \<le> hm" "hm \<le> 24" "0 \<le> hf" "hf \<le> 24"
  shows "fst (home_production p (Fin hm) (Fin hf)) = H_rule p hm hf
    \<and> (sigma p = 0 \<longrightarrow> fst (home_production p (Fin 3) (Fin 7)) = Fin 3)
    \<and> (sigma p = 1 \<and> 0 < hm \<and> 0 < hf \<longrightarrow>
         fst (home_production p (Fin hm) (Fin hf)) = Fin (hm powr (1 - alpha p) * hf powr alpha p))"
proof -
  have pos: "0 < max hm (1 / 10 ^ 7)" "0 < max hf (1 / 10 ^ 7)"
    by (simp_all add: less_max_iff_disj)
  have "fst (home_production p (Fin hm) (Fin hf)) = H_rule p hm hf"
    using pos by (simp add: home_production_def H_rule_def Let_def np_pow_pos')
  moreover have "sigma p = 0 \<longrightarrow> fst (home_production p (Fin 3) (Fin 7)) = Fin 3"
    by (simp add: home_production_def)
  moreover have "sigma p = 1 \<and> 0 < hm \<and> 0 < hf \<longrightarrow>
         fst (home_production p (Fin hm) (Fin hf)) = Fin (hm powr (1 - alpha p) * hf powr alpha p)"
    by (simp add: home_production_def)
  ultimately show ?thesis by blast
qed

theorem home_production_rule_witness:
  "fst (home_production (init_par\<lparr>sigma := 0\<rparr>) (Fin 3) (Fin 7)) = Fin 3
   \<and> fst (home_production (init_par\<lparr>sigma := 0, alpha := 9 / 10\<rparr>) (Fin 3) (Fin 7)) = Fin 3
   \<and> fst (home_production init_par (Fin 4) (Fin 4)) = Fin 4"
  using home_production_rule [of 3 7 "init_par\<lparr>sigma := 0\<rparr>"]
    home_production_rule [of 3 7 "init_par\<lparr>sigma := 0, alpha := 9 / 10\<rparr>"]
    home_production_rule [of 4 4 init_par]
  by (simp add: init_par_def H_rule_def)

lemma calc_value_unfold:
  "calc_value p lm hm lf hf =
     np_sub (consumption_utility p (market_consumption p lm lf) (fst (home_production p hm hf)))
            (disutility p lm (fst (snd (home_production p hm hf))) lf (snd (snd (home_production p hm hf))))"
  by (simp add: calc_value_def Let_def split: prod.splits)

text \<open>
  Claim C9.  \<open>calc_utility\<close> is a function of its four arguments and the parameters alone:
  two model objects with the same parameters give the same result whatever their
  solution vectors hold, a call leaves the model object as it was, and a second call
  with the same arguments returns the same value.
\<close>

theorem calc_utility_pure:
  "(par m = par m' \<longrightarrow>
      map_sum id fst (calc_utility_method m lm hm lf hf) =
      map_sum id fst (calc_utility_method m' lm hm lf hf))
   \<and> (\<forall>v m1. calc_utility_method m lm hm lf hf = Inr (v, m1) \<longrightarrow>
        m1 = m \<and> calc_utility_method m1 lm hm lf hf = Inr (v, m1))"
  by (auto simp: calc_utility_method_def Let_def split: sum.splits)

theorem calc_utility_pure_witness:
  "calc_utility_method init_model (Fin 0) (Fin 0) (Fin 0) (Fin 0) = Inr (Fin (- (10 ^ 8)), init_model)
   \<and> map_sum id fst (calc_utility_method (init_model\<lparr>sol := init_sol []\<rparr>) (Fin 0) (Fin 0) (Fin 0) (Fin 0))
     = Inr (Fin (- (10 ^ 8)))"
proof -
  have v: "calc_utility init_par (Fin 0) (Fin 0) (Fin 0) (Fin 0) = Inr (Fin (- (10 ^ 8)))"
    by (simp add: calc_utility_def calc_value_def init_par_def market_consumption_def
        home_production_def consumption_utility_def composite_good_def disutility_def
        np_sub_def Let_def powr_minus)
  have a: "calc_utility_method init_model (Fin 0) (Fin 0) (Fin 0) (Fin 0) = Inr (Fin (- (10 ^ 8)), init_model)"
    by (simp add: calc_utility_method_def init_model_def v)
  have "par init_model = par (init_model\<lparr>sol := init_sol []\<rparr>)" by simp
  with calc_utility_pure [of init_model "init_model\<lparr>sol := init_sol []\<rparr>" "Fin 0" "Fin 0" "Fin 0" "Fin 0"]
  have "map_sum id fst (calc_utility_method init_model (Fin 0) (Fin 0) (Fin 0) (Fin 0)) =
      map_sum id fst (calc_utility_method (init_model\<lparr>sol := init_sol []\<rparr>) (Fin 0) (Fin 0) (Fin 0) (Fin 0))"
    by blast
  with a show ?thesis by simp
qed


section \<open>Properties of solve_discrete\<close>

subsection \<open>The order on numpy values\<close>

lemma np_le_trans: "np_le a b \<Longrightarrow> np_le b c \<Longrightarrow> np_le a c"
  by (cases a; cases b; cases c) auto

lemma np_le_total: "a \<noteq> NaN \<Longrightarrow> b \<noteq> NaN \<Longrightarrow> np_le a b \<or> np_le b a"
  by (cases a; cases b) auto

lemma np_le_refl: "a \<noteq> NaN \<Longrightarrow> np_le a a"
  by (cases a) auto

lemma np_le_not_nan: "np_le a b \<Longrightarrow> a \<noteq> NaN \<and> b \<noteq> NaN"
  by (cases a; cases b) auto

lemma np_le_NInf: "a \<noteq> NaN \<Longrightarrow> np_le NInf a"
  by (cases a) auto

lemma np_le_NInf_iff: "np_le a NInf \<longleftrightarrow> a = NInf"
  by (cases a) auto

subsection \<open>np.argmax\<close>

lemma argmax_loop_first_max:
  assumes "length ps = i" "mi < i" "ps ! mi = mp" "NaN \<notin> set ps"
    and "\<forall>v\<in>set ps. np_le v mp" "\<forall>v\<in>set (take mi ps). \<not> np_le mp v"
  shows "first_max (ps @ vs) (argmax_loop mp mi i vs)"
  using assms
proof (induction vs arbitrary: ps mp mi i)
  case Nil
  then show ?case by (simp add: first_max_def list_all_iff)
next
  case (Cons v vs)
  have "ps ! mi \<in> set ps" by (rule nth_mem) (use Cons.prems in simp)
  then have mp: "mp \<noteq> NaN" using Cons.prems by auto
  show ?case
  proof (cases "np_le v mp")
    case True
    then have v: "v \<noteq> NaN" using np_le_not_nan by blast
    have "first_max ((ps @ [v]) @ vs) (argmax_loop mp mi (Suc i) vs)"
    proof (rule Cons.IH)
      show "length (ps @ [v]) = Suc i" using Cons.prems by simp
      show "mi < Suc i" using Cons.prems by simp
      show "(ps @ [v]) ! mi = mp" using Cons.prems by (simp add: nth_append)
      show "NaN \<notin> set (ps @ [v])" using Cons.prems v by auto
      show "\<forall>w\<in>set (ps @ [v]). np_le w mp" using Cons.prems True by auto
      show "\<forall>w\<in>set (take mi (ps @ [v])). \<not> np_le mp w" using Cons.prems by simp
    qed
    with True show ?thesis by simp
  next
    case False
    show ?thesis
    proof (cases "isnan v")
      case True
      then have "v = NaN" by (simp add: isnan_def)
      with False Cons.prems show ?thesis
        by (simp add: first_max_def nth_append isnan_def)
    next
      case nn: False
      then have v: "v \<noteq> NaN" by (simp add: isnan_def)
      have lt: "np_le mp v" using np_le_total [OF v mp] False by blast
      have "first_max ((ps @ [v]) @ vs) (argmax_loop v i (Suc i) vs)"
      proof (rule Cons.IH)
        show "length (ps @ [v]) = Suc i" using Cons.prems by simp
        show "i < Suc i" by simp
        show "(ps @ [v]) ! i = v" using Cons.prems by (simp add: nth_append)
        show "NaN \<notin> set (ps @ [v])" using Cons.prems v by auto
        show "\<forall>w\<in>set (ps @ [v]). np_le w v"
          using Cons.prems lt np_le_refl [OF v] by (auto intro: np_le_trans)
        show "\<forall>w\<in>set (take i (ps @ [v])). \<not> np_le v w"
        proof
          fix w assume "w \<in> set (take i (ps @ [v]))"
          then have "w \<in> set ps" using Cons.prems by simp
          then have "np_le w mp" using Cons.prems by blast
          then show "\<not> np_le v w" using False np_le_trans by blast
        qed
      qed
      with False nn show ?thesis by simp
    qed
  qed
qed

lemma np_argmax_first_max:
  assumes "np_argmax u = Inr j"
  shows "first_max u j"
proof (cases u)
  case Nil
  with assms show ?thesis by simp
next
  case (Cons v vs)
  show ?thesis
  proof (cases "isnan v")
    case True
    with assms Cons show ?thesis by (auto simp: first_max_def isnan_def)
  next
    case False
    then have v: "v \<noteq> NaN" by (simp add: isnan_def)
    have "first_max ([v] @ vs) (argmax_loop v 0 1 vs)"
      by (rule argmax_loop_first_max) (use v np_le_refl in auto)
    with assms Cons False show ?thesis by simp
  qed
qed

lemma np_argmax_total: "u \<noteq> [] \<Longrightarrow> \<exists>j. np_argmax u = Inr j"
  by (cases u) auto

lemma first_max_NInf:
  assumes "first_max u j" "u ! j = NInf"
  shows "j = 0"
proof (rule ccontr)
  assume "j \<noteq> 0"
  then have j: "0 < j" by simp
  from assms(1) have jl: "j < length u" by (simp add: first_max_def)
  from assms have nn: "NaN \<notin> set u" by (auto simp: first_max_def)
  with assms have all: "list_all (\<lambda>v. \<not> np_le NInf v) (take j u)" by (simp add: first_max_def)
  have "take j u ! 0 \<in> set (take j u)" by (rule nth_mem) (use j jl in simp)
  then have mem: "u ! 0 \<in> set (take j u)" using j by simp
  have "0 < length u" using jl by linarith
  then have "u ! 0 \<in> set u" by (rule nth_mem)
  then have "u ! 0 \<noteq> NaN" using nn by metis
  then have "np_le NInf (u ! 0)" by (rule np_le_NInf)
  with all mem show False by (auto simp: list_all_iff)
qed

subsection \<open>The grid\<close>

lemma linspace_0_24_49: "linspace 0 24 49 = map (\<lambda>i. real i / 2) [0..<49]"
proof -
  have "[0..<49] = [0..<48] @ [48::nat]" using upt_Suc_append [of 0 48] by simp
  then show ?thesis by (simp add: linspace_def)
qed

lemma concat_map_const_length:
  "(\<And>a. a \<in> set xs \<Longrightarrow> length (f a) = m) \<Longrightarrow> length (concat (map f xs)) = length xs * m"
  by (induction xs) auto

lemma concat_map_nth:
  assumes "\<And>a. a \<in> set xs \<Longrightarrow> length (f a) = m" "i < length xs" "r < m"
  shows "concat (map f xs) ! (i * m + r) = f (xs ! i) ! r"
  using assms
proof (induction xs arbitrary: i)
  case Nil
  then show ?case by simp
next
  case (Cons a xs)
  show ?case
  proof (cases i)
    case 0
    with Cons.prems show ?thesis by (simp add: nth_append)
  next
    case (Suc k)
    have "concat (map f xs) ! (k * m + r) = f (xs ! k) ! r"
      using Cons.prems Suc by (intro Cons.IH) auto
    with Cons.prems Suc show ?thesis by (simp add: nth_append)
  qed
qed

lemma length_meshgrid_ravel: "length (meshgrid_ravel x) = length x ^ 4"
proof -
  let ?n = "length x"
  have 1: "length (map (\<lambda>hf. \<lparr>LM = Fin lm, HM = Fin hm, LF = Fin lf, HF = Fin hf\<rparr>) x) = ?n" for lm hm lf
    by simp
  have 2: "length (concat (map (\<lambda>lf.
       map (\<lambda>hf. \<lparr>LM = Fin lm, HM = Fin hm, LF = Fin lf, HF = Fin hf\<rparr>) x) x)) = ?n * ?n" for lm hm
    by (rule concat_map_const_length) simp
  have 3: "length (concat (map (\<lambda>lm. concat (map (\<lambda>lf.
       map (\<lambda>hf. \<lparr>LM = Fin lm, HM = Fin hm, LF = Fin lf, HF = Fin hf\<rparr>) x) x)) x)) = ?n * (?n * ?n)" for hm
    by (rule concat_map_const_length) (rule 2)
  have "length (meshgrid_ravel x) = ?n * (?n * (?n * ?n))"
    unfolding meshgrid_ravel_def by (rule concat_map_const_length) (rule 3)
  then show ?thesis by (simp add: power4_eq_xxxx mult.assoc)
qed

lemma meshgrid_ravel_nth:
  assumes "i < length x" "j < length x" "k < length x" "l < length x"
  shows "meshgrid_ravel x ! (((i * length x + j) * length x + k) * length x + l) =
           \<lparr>LM = Fin (x ! j), HM = Fin (x ! i), LF = Fin (x ! k), HF = Fin (x ! l)\<rparr>"
proof -
  let ?n = "length x"
  let ?f3 = "\<lambda>lm hm lf. map (\<lambda>hf. \<lparr>LM = Fin lm, HM = Fin hm, LF = Fin lf, HF = Fin hf\<rparr>) x"
  let ?f2 = "\<lambda>lm hm. concat (map (?f3 lm hm) x)"
  let ?f1 = "\<lambda>hm. concat (map (\<lambda>lm. ?f2 lm hm) x)"
  have l2: "length (?f2 lm hm) = ?n * ?n" for lm hm
    by (rule concat_map_const_length) simp
  have l1: "length (?f1 hm) = ?n * (?n * ?n)" for hm
    by (rule concat_map_const_length) (rule l2)
  have r2: "k * ?n + l < ?n * ?n"
  proof -
    have "k * ?n + l < k * ?n + ?n" using assms by simp
    also have "\<dots> = Suc k * ?n" by simp
    also have "\<dots> \<le> ?n * ?n" using assms by (intro mult_le_mono1) simp
    finally show ?thesis .
  qed
  have r1: "j * (?n * ?n) + (k * ?n + l) < ?n * (?n * ?n)"
  proof -
    have "j * (?n * ?n) + (k * ?n + l) < j * (?n * ?n) + ?n * ?n" using r2 by simp
    also have "\<dots> = Suc j * (?n * ?n)" by simp
    also have "\<dots> \<le> ?n * (?n * ?n)" using assms by (intro mult_le_mono1) simp
    finally show ?thesis .
  qed
  have idx: "((i * ?n + j) * ?n + k) * ?n + l = i * (?n * (?n * ?n)) + (j * (?n * ?n) + (k * ?n + l))"
    by (simp add: algebra_simps)
  have "meshgrid_ravel x ! (i * (?n * (?n * ?n)) + (j * (?n * ?n) + (k * ?n + l)))
      = ?f1 (x ! i) ! (j * (?n * ?n) + (k * ?n + l))"
    unfolding meshgrid_ravel_def
    by (rule concat_map_nth [where f = ?f1]) (use l1 assms r1 in auto)
  also have "\<dots> = ?f2 (x ! j) (x ! i) ! (k * ?n + l)"
    by (rule concat_map_nth [where f = "\<lambda>lm. ?f2 lm (x ! i)"]) (use l2 assms r2 in auto)
  also have "\<dots> = ?f3 (x ! j) (x ! i) (x ! k) ! l"
    by (rule concat_map_nth [where f = "?f3 (x ! j) (x ! i)"]) (use assms in auto)
  also have "\<dots> = \<lparr>LM = Fin (x ! j), HM = Fin (x ! i), LF = Fin (x ! k), HF = Fin (x ! l)\<rparr>"
    using assms by simp
  finally show ?thesis unfolding idx .
qed

lemma set_meshgrid_ravel:
  "set (meshgrid_ravel x) =
     {\<lparr>LM = Fin lm, HM = Fin hm, LF = Fin lf, HF = Fin hf\<rparr> | lm hm lf hf.
        lm \<in> set x \<and> hm \<in> set x \<and> lf \<in> set x \<and> hf \<in> set x}"
  unfolding meshgrid_ravel_def by auto

lemma meshgrid_ravel_hd:
  "x \<noteq> [] \<Longrightarrow> meshgrid_ravel x ! 0 =
     \<lparr>LM = Fin (hd x), HM = Fin (hd x), LF = Fin (hd x), HF = Fin (hd x)\<rparr>"
  by (cases x) (simp_all add: meshgrid_ravel_def)

lemma feasible_grid:
  "c \<in> set (meshgrid_ravel x) \<Longrightarrow> feasible c \<longleftrightarrow> \<not> constraint_broken c"
  by (auto simp: set_meshgrid_ravel feasible_def constraint_broken_def np_gt_def)

subsection \<open>The masked array\<close>

lemma length_mask_assign: "length (mask_assign u I) = min (length u) (length I)"
  by (simp add: mask_assign_def)

lemma mask_assign_nth:
  "i < length u \<Longrightarrow> i < length I \<Longrightarrow> mask_assign u I ! i = (if I ! i then NInf else u ! i)"
  by (simp add: mask_assign_def)

lemma solve_discrete_on_Inr:
  assumes "solve_discrete_on cu x p = Inr c"
  shows "\<exists>u j. cu p (meshgrid_ravel x) = Inr u
     \<and> np_argmax (mask_assign u (map constraint_broken (meshgrid_ravel x))) = Inr j
     \<and> c = meshgrid_ravel x ! j"
  using assms by (auto simp: solve_discrete_on_def Let_def split: sum.splits)

lemma solve_discrete_on_feasible:
  assumes "solve_discrete_on cu x p = Inr c" "x \<noteq> []" "hd x + hd x \<le> 24"
  shows "feasible c"
proof -
  let ?cs = "meshgrid_ravel x"
  let ?I = "map constraint_broken ?cs"
  from solve_discrete_on_Inr [OF assms(1)] obtain u j where
    u: "cu p ?cs = Inr u" and j: "np_argmax (mask_assign u ?I) = Inr j" and c: "c = ?cs ! j"
    by blast
  have fm: "first_max (mask_assign u ?I) j" using j by (rule np_argmax_first_max)
  then have jl: "j < length u" "j < length ?cs"
    by (simp_all add: first_max_def length_mask_assign)
  then have mem: "c \<in> set ?cs" using c by simp
  show ?thesis
  proof (cases "mask_assign u ?I ! j = NInf")
    case True
    then have "j = 0" using fm first_max_NInf by blast
    with c assms(2,3) show ?thesis
      by (simp add: meshgrid_ravel_hd feasible_def)
  next
    case False
    then have "\<not> constraint_broken (?cs ! j)"
      using jl by (auto simp: mask_assign_nth split: if_splits)
    with mem c show ?thesis by (simp add: feasible_grid)
  qed
qed

lemma linspace_hd: "hd (linspace 0 24 49) = 0" "linspace 0 24 49 \<noteq> []"
proof -
  show ne: "linspace 0 24 49 \<noteq> []" by (simp add: linspace_def)
  have "hd (linspace 0 24 49) = linspace 0 24 49 ! 0" using ne by (simp add: hd_conv_nth)
  also have "\<dots> = 0" unfolding linspace_0_24_49 by simp
  finally show "hd (linspace 0 24 49) = 0" .
qed

lemma length_linspace: "length (linspace a b n) = n"
  by (simp add: linspace_def)

lemma solve_discrete_total:
  assumes "epsilon p \<noteq> 0"
  shows "\<exists>c. solve_discrete p = Inr c"
proof -
  let ?cs = "meshgrid_ravel (linspace 0 24 49)"
  let ?u = "map (\<lambda>c. calc_value p (LM c) (HM c) (LF c) (HF c)) ?cs"
  have "length ?cs = 49 ^ 4" by (simp add: length_meshgrid_ravel length_linspace)
  then have "length (mask_assign ?u (map constraint_broken ?cs)) = 49 ^ 4"
    by (simp add: length_mask_assign)
  then have "mask_assign ?u (map constraint_broken ?cs) \<noteq> []"
    by auto
  then obtain j where "np_argmax (mask_assign ?u (map constraint_broken ?cs)) = Inr j"
    using np_argmax_total by blast
  with assms show ?thesis
    by (simp add: solve_discrete_def solve_discrete_on_def calc_utility_arr_def Let_def)
qed

text \<open>
  Claim C1.  For every parameter setting, the choice that \<open>solve_discrete\<close> returns
  satisfies \<open>LM+HM \<le> 24\<close> and \<open>LF+HF \<le> 24\<close>.  The call returns a choice unless
  \<open>par.epsilon\<close> is 0, where \<open>1/par.epsilon\<close> raises.  No assumption on the utilities is
  needed: a masked entry is minus infinity, so the argmax is a masked entry only when
  every entry is minus infinity, and then it is index 0, the feasible point \<open>(0,0,0,0)\<close>.
\<close>

theorem solve_discrete_feasible:
  "(epsilon p = 0 \<longrightarrow> solve_discrete p = Inl ZeroDivisionError)
   \<and> (epsilon p \<noteq> 0 \<longrightarrow> (\<exists>c. solve_discrete p = Inr c \<and> feasible c))"
proof -
  have "solve_discrete p = Inl ZeroDivisionError" if "epsilon p = 0"
    using that by (simp add: solve_discrete_def solve_discrete_on_def calc_utility_arr_def)
  moreover have "\<exists>c. solve_discrete p = Inr c \<and> feasible c" if "epsilon p \<noteq> 0"
  proof -
    from solve_discrete_total [OF that] obtain c where c: "solve_discrete p = Inr c" by blast
    then have "feasible c"
      unfolding solve_discrete_def
      by (rule solve_discrete_on_feasible) (simp_all add: linspace_hd)
    with c show ?thesis by blast
  qed
  ultimately show ?thesis by blast
qed

theorem solve_discrete_feasible_witness:
  "epsilon init_par \<noteq> 0 \<and> (\<exists>c. solve_discrete init_par = Inr c \<and> feasible c)
   \<and> solve_discrete (init_par\<lparr>epsilon := 0\<rparr>) = Inl ZeroDivisionError"
  using solve_discrete_feasible [of init_par] solve_discrete_feasible [of "init_par\<lparr>epsilon := 0\<rparr>"]
  by (simp add: init_par_def)

lemma calc_utility_arr_Inr:
  "calc_utility_arr p cs = Inr u \<Longrightarrow>
     epsilon p \<noteq> 0 \<and> u = map (\<lambda>c. calc_value p (LM c) (HM c) (LF c) (HF c)) cs"
  by (auto simp: calc_utility_arr_def split: if_splits)

text \<open>
  Claim C7.  The grid vector has the 49 points \<open>0, 0.5, \<dots>, 24\<close>; the flattened grid is the
  full Cartesian product, of length \<open>49^4\<close>; the utility array holds the utility of each
  row; the masked array has the same length, with minus infinity at the rows with
  \<open>LM+HM > 24\<close> or \<open>LF+HF > 24\<close> and the utility elsewhere; the result is the row at the
  argmax of the masked array, the first one on ties.  The result is a function of the
  parameters.
\<close>

theorem solve_discrete_argmax:
  "linspace 0 24 49 = map (\<lambda>i. real i / 2) [0..<49]
   \<and> length (meshgrid_ravel (linspace 0 24 49)) = 49 ^ 4
   \<and> set (meshgrid_ravel (linspace 0 24 49)) =
       {\<lparr>LM = Fin lm, HM = Fin hm, LF = Fin lf, HF = Fin hf\<rparr> | lm hm lf hf.
          lm \<in> set (linspace 0 24 49) \<and> hm \<in> set (linspace 0 24 49) \<and>
          lf \<in> set (linspace 0 24 49) \<and> hf \<in> set (linspace 0 24 49)}
   \<and> (\<forall>c. solve_discrete p = Inr c \<longrightarrow>
        (\<exists>u u' j. calc_utility_arr p (meshgrid_ravel (linspace 0 24 49)) = Inr u
           \<and> length u = 49 ^ 4
           \<and> (\<forall>i<49 ^ 4. calc_utility p (LM (meshgrid_ravel (linspace 0 24 49) ! i))
                  (HM (meshgrid_ravel (linspace 0 24 49) ! i))
                  (LF (meshgrid_ravel (linspace 0 24 49) ! i))
                  (HF (meshgrid_ravel (linspace 0 24 49) ! i)) = Inr (u ! i))
           \<and> u' = mask_assign u (map constraint_broken (meshgrid_ravel (linspace 0 24 49)))
           \<and> length u' = 49 ^ 4
           \<and> (\<forall>i<49 ^ 4. \<exists>lm hm lf hf.
                 meshgrid_ravel (linspace 0 24 49) ! i =
                   \<lparr>LM = Fin lm, HM = Fin hm, LF = Fin lf, HF = Fin hf\<rparr>
                 \<and> u' ! i = (if 24 < lm + hm \<or> 24 < lf + hf then NInf else u ! i))
           \<and> np_argmax u' = Inr j \<and> first_max u' j
           \<and> c = meshgrid_ravel (linspace 0 24 49) ! j))
   \<and> (epsilon p \<noteq> 0 \<longrightarrow> (\<exists>c. solve_discrete p = Inr c))"
proof -
  let ?x = "linspace 0 24 49"
  let ?cs = "meshgrid_ravel ?x"
  let ?I = "map constraint_broken ?cs"
  have len: "length ?cs = 49 ^ 4"
    by (simp add: length_meshgrid_ravel length_linspace)
  have run: "\<exists>u u' j. calc_utility_arr p ?cs = Inr u
           \<and> length u = 49 ^ 4
           \<and> (\<forall>i<49 ^ 4. calc_utility p (LM (?cs ! i)) (HM (?cs ! i)) (LF (?cs ! i)) (HF (?cs ! i))
                  = Inr (u ! i))
           \<and> u' = mask_assign u ?I
           \<and> length u' = 49 ^ 4
           \<and> (\<forall>i<49 ^ 4. \<exists>lm hm lf hf.
                 ?cs ! i = \<lparr>LM = Fin lm, HM = Fin hm, LF = Fin lf, HF = Fin hf\<rparr>
                 \<and> u' ! i = (if 24 < lm + hm \<or> 24 < lf + hf then NInf else u ! i))
           \<and> np_argmax u' = Inr j \<and> first_max u' j
           \<and> c = ?cs ! j"
    if "solve_discrete p = Inr c" for c
  proof -
    from solve_discrete_on_Inr [OF that [unfolded solve_discrete_def]]
    obtain u j where u: "calc_utility_arr p ?cs = Inr u"
      and j: "np_argmax (mask_assign u ?I) = Inr j" and c: "c = ?cs ! j"
      by blast
    from calc_utility_arr_Inr [OF u] have eps: "epsilon p \<noteq> 0"
      and ueq: "u = map (\<lambda>c. calc_value p (LM c) (HM c) (LF c) (HF c)) ?cs" by simp_all
    have lu: "length u = 49 ^ 4" using ueq len by simp
    have vals: "\<forall>i<49 ^ 4. calc_utility p (LM (?cs ! i)) (HM (?cs ! i)) (LF (?cs ! i)) (HF (?cs ! i))
                  = Inr (u ! i)"
      using eps len unfolding ueq by (simp add: calc_utility_def)
    have lm: "length (mask_assign u ?I) = 49 ^ 4"
      using lu len by (simp add: length_mask_assign)
    have mk: "\<forall>i<49 ^ 4. mask_assign u ?I ! i = (if constraint_broken (?cs ! i) then NInf else u ! i)"
      using lu len by (simp add: mask_assign_nth)
    have mk2: "\<forall>i<49 ^ 4. \<exists>lm hm lf hf.
                 ?cs ! i = \<lparr>LM = Fin lm, HM = Fin hm, LF = Fin lf, HF = Fin hf\<rparr>
                 \<and> mask_assign u ?I ! i = (if 24 < lm + hm \<or> 24 < lf + hf then NInf else u ! i)"
    proof (intro allI impI)
      fix i :: nat assume i: "i < 49 ^ 4"
      then have "?cs ! i \<in> set ?cs" using len by simp
      then obtain lm hm lf hf where
        row: "?cs ! i = \<lparr>LM = Fin lm, HM = Fin hm, LF = Fin lf, HF = Fin hf\<rparr>"
        unfolding set_meshgrid_ravel by blast
      have "constraint_broken (?cs ! i) \<longleftrightarrow> 24 < lm + hm \<or> 24 < lf + hf"
        unfolding row by (auto simp: constraint_broken_def np_gt_def)
      with mk i have "mask_assign u ?I ! i = (if 24 < lm + hm \<or> 24 < lf + hf then NInf else u ! i)"
        by simp
      with row show "\<exists>lm hm lf hf.
                 ?cs ! i = \<lparr>LM = Fin lm, HM = Fin hm, LF = Fin lf, HF = Fin hf\<rparr>
                 \<and> mask_assign u ?I ! i = (if 24 < lm + hm \<or> 24 < lf + hf then NInf else u ! i)"
        by blast
    qed
    have fm: "first_max (mask_assign u ?I) j" using j by (rule np_argmax_first_max)
    from u lu vals lm mk2 j fm c show ?thesis by blast
  qed
  show ?thesis
  proof (intro conjI allI impI)
    show "linspace 0 24 49 = map (\<lambda>i. real i / 2) [0..<49]" by (rule linspace_0_24_49)
    show "length ?cs = 49 ^ 4" by (rule len)
    show "set ?cs =
       {\<lparr>LM = Fin lm, HM = Fin hm, LF = Fin lf, HF = Fin hf\<rparr> | lm hm lf hf.
          lm \<in> set ?x \<and> hm \<in> set ?x \<and> lf \<in> set ?x \<and> hf \<in> set ?x}"
      by (rule set_meshgrid_ravel)
    show "\<exists>u u' j. calc_utility_arr p ?cs = Inr u
           \<and> length u = 49 ^ 4
           \<and> (\<forall>i<49 ^ 4. calc_utility p (LM (?cs ! i)) (HM (?cs ! i)) (LF (?cs ! i)) (HF (?cs ! i))
                  = Inr (u ! i))
           \<and> u' = mask_assign u ?I
           \<and> length u' = 49 ^ 4
           \<and> (\<forall>i<49 ^ 4. \<exists>lm hm lf hf.
                 ?cs ! i = \<lparr>LM = Fin lm, HM = Fin hm, LF = Fin lf, HF = Fin hf\<rparr>
                 \<and> u' ! i = (if 24 < lm + hm \<or> 24 < lf + hf then NInf else u ! i))
           \<and> np_argmax u' = Inr j \<and> first_max u' j
           \<and> c = ?cs ! j"
      if "solve_discrete p = Inr c" for c using that by (rule run)
    show "\<exists>c. solve_discrete p = Inr c" if "epsilon p \<noteq> 0"
      using that by (rule solve_discrete_total)
  qed
qed

theorem solve_discrete_argmax_witness:
  "\<exists>c u j. solve_discrete init_par = Inr c
     \<and> calc_utility_arr init_par (meshgrid_ravel (linspace 0 24 49)) = Inr u
     \<and> first_max (mask_assign u (map constraint_broken (meshgrid_ravel (linspace 0 24 49)))) j
     \<and> c = meshgrid_ravel (linspace 0 24 49) ! j"
proof -
  have e: "epsilon init_par \<noteq> 0" by (simp add: init_par_def)
  note t = solve_discrete_argmax [of init_par]
  note run = t [THEN conjunct2, THEN conjunct2, THEN conjunct2, THEN conjunct1]
  note tot = t [THEN conjunct2, THEN conjunct2, THEN conjunct2, THEN conjunct2]
  from tot e obtain c where c: "solve_discrete init_par = Inr c" by blast
  from run c obtain u u' j where
    "calc_utility_arr init_par (meshgrid_ravel (linspace 0 24 49)) = Inr u"
    "u' = mask_assign u (map constraint_broken (meshgrid_ravel (linspace 0 24 49)))"
    "first_max u' j" "c = meshgrid_ravel (linspace 0 24 49) ! j"
    by blast
  with c show ?thesis by blast
qed

section \<open>Properties of solve_wF_vec\<close>

lemma ebind_Inr_iff: "ebind x f = Inr y \<longleftrightarrow> (\<exists>v. x = Inr v \<and> f v = Inr y)"
  by (cases x) auto

lemma get_Inr_iff: "get xs i = Inr v \<longleftrightarrow> i < length xs \<and> v = xs ! i"
  by (auto simp: get_def)

lemma store_Inr_iff: "store xs i v = Inr ys \<longleftrightarrow> i < length xs \<and> ys = xs[i := v]"
  by (auto simp: store_def)

lemma take4:
  assumes "4 \<le> length xs"
  shows "take 4 xs = [xs ! 0, xs ! 1, xs ! 2, xs ! 3]"
proof -
  obtain a b c d ys where "xs = a # b # c # d # ys"
    using assms by (cases xs; cases "tl xs"; cases "tl (tl xs)"; cases "tl (tl (tl xs))") auto
  then show ?thesis by simp
qed

lemma sweep_step_par:
  assumes "sweep_step sd sc d it m = Inr m1"
  shows "it < length (wF_vec (par m)) \<and> par m1 = (par m)\<lparr>wF := wF_vec (par m) ! it\<rparr>"
  using assms
  by (cases d) (auto simp: sweep_step_def ebind_Inr_iff get_Inr_iff store_Inr_iff Let_def)

lemma sweep_step_discrete:
  assumes "sweep_step sd sc True it m = Inr m1"
  shows "sol m1 = sol m"
  using assms by (auto simp: sweep_step_def ebind_Inr_iff get_Inr_iff Let_def)

lemma sweep_step_cont:
  assumes "sweep_step sd sc False it m = Inr m1"
  shows "\<exists>res. sc ((par m)\<lparr>wF := wF_vec (par m) ! it\<rparr>) = Inr res \<and> 4 \<le> length res
    \<and> list_all (\<lambda>v. it < length v) (vecs (sol m))
    \<and> sol m1 = (sol m)\<lparr>LM_vec := (LM_vec (sol m))[it := res ! 0],
                       HM_vec := (HM_vec (sol m))[it := res ! 1],
                       LF_vec := (LF_vec (sol m))[it := res ! 2],
                       HF_vec := (HF_vec (sol m))[it := res ! 3]\<rparr>"
  using assms
  by (auto simp: sweep_step_def ebind_Inr_iff get_Inr_iff store_Inr_iff Let_def vecs_def)

lemma sweep_loop_par:
  assumes "sweep_loop (sweep_step sd sc d) its m = Inr m'"
  shows "par m' = (par m)\<lparr>wF := (if its = [] then wF (par m) else wF_vec (par m) ! last its)\<rparr>"
  using assms
proof (induction its arbitrary: m)
  case Nil
  then show ?case by simp
next
  case (Cons it its)
  then obtain m1 where s: "sweep_step sd sc d it m = Inr m1"
    and l: "sweep_loop (sweep_step sd sc d) its m1 = Inr m'"
    by (auto split: sum.splits)
  from sweep_step_par [OF s] have p1: "par m1 = (par m)\<lparr>wF := wF_vec (par m) ! it\<rparr>" by simp
  from Cons.IH [OF l] show ?case by (simp add: p1)
qed

lemma sweep_loop_discrete:
  assumes "sweep_loop (sweep_step sd sc True) its m = Inr m'"
  shows "sol m' = sol m"
  using assms
proof (induction its arbitrary: m)
  case Nil
  then show ?case by simp
next
  case (Cons it its)
  then obtain m1 where s: "sweep_step sd sc True it m = Inr m1"
    and l: "sweep_loop (sweep_step sd sc True) its m1 = Inr m'"
    by (auto split: sum.splits)
  from Cons.IH [OF l] sweep_step_discrete [OF s] show ?case by simp
qed

lemma sweep_loop_cont:
  assumes "sweep_loop (sweep_step sd sc False) its m = Inr m'" "distinct its"
  shows "map length (vecs (sol m')) = map length (vecs (sol m))
    \<and> beta0 (sol m') = beta0 (sol m) \<and> beta1 (sol m') = beta1 (sol m)
    \<and> (\<forall>it\<in>set its. \<exists>res. sc ((par m)\<lparr>wF := wF_vec (par m) ! it\<rparr>) = Inr res \<and> 4 \<le> length res
          \<and> map (\<lambda>v. v ! it) (vecs (sol m')) = take 4 res)
    \<and> (\<forall>i. i \<notin> set its \<longrightarrow> map (\<lambda>v. v ! i) (vecs (sol m')) = map (\<lambda>v. v ! i) (vecs (sol m)))"
  using assms
proof (induction its arbitrary: m)
  case Nil
  then show ?case by simp
next
  case (Cons it its)
  then obtain m1 where s: "sweep_step sd sc False it m = Inr m1"
    and l: "sweep_loop (sweep_step sd sc False) its m1 = Inr m'"
    by (auto split: sum.splits)
  from Cons.prems have d: "distinct its" and ni: "it \<notin> set its" by simp_all
  from sweep_step_par [OF s] have p1: "par m1 = (par m)\<lparr>wF := wF_vec (par m) ! it\<rparr>" by simp
  from sweep_step_cont [OF s] obtain res where
    res: "sc ((par m)\<lparr>wF := wF_vec (par m) ! it\<rparr>) = Inr res" and r4: "4 \<le> length res"
    and inr: "list_all (\<lambda>v. it < length v) (vecs (sol m))"
    and s1: "sol m1 = (sol m)\<lparr>LM_vec := (LM_vec (sol m))[it := res ! 0],
                       HM_vec := (HM_vec (sol m))[it := res ! 1],
                       LF_vec := (LF_vec (sol m))[it := res ! 2],
                       HF_vec := (HF_vec (sol m))[it := res ! 3]\<rparr>"
    by blast
  note IH = Cons.IH [OF l d]
  have t4: "take 4 res = [res ! 0, res ! 1, res ! 2, res ! 3]"
    using r4 by (rule take4)
  have a: "map length (vecs (sol m')) = map length (vecs (sol m))"
    using IH by (simp add: s1 vecs_def)
  have b: "beta0 (sol m') = beta0 (sol m) \<and> beta1 (sol m') = beta1 (sol m)"
    using IH by (simp add: s1)
  have c1: "\<exists>r. sc ((par m)\<lparr>wF := wF_vec (par m) ! it\<rparr>) = Inr r \<and> 4 \<le> length r
          \<and> map (\<lambda>v. v ! it) (vecs (sol m')) = take 4 r"
  proof -
    have "map (\<lambda>v. v ! it) (vecs (sol m')) = map (\<lambda>v. v ! it) (vecs (sol m1))"
      using IH ni by blast
    also have "\<dots> = take 4 res"
      using inr by (simp add: s1 vecs_def t4)
    finally show ?thesis using res r4 by blast
  qed
  have c2: "\<exists>r. sc ((par m)\<lparr>wF := wF_vec (par m) ! k\<rparr>) = Inr r \<and> 4 \<le> length r
          \<and> map (\<lambda>v. v ! k) (vecs (sol m')) = take 4 r" if "k \<in> set its" for k
  proof -
    from IH that obtain r where "sc ((par m1)\<lparr>wF := wF_vec (par m1) ! k\<rparr>) = Inr r"
      "4 \<le> length r" "map (\<lambda>v. v ! k) (vecs (sol m')) = take 4 r" by blast
    then show ?thesis by (auto simp: p1)
  qed
  have e: "map (\<lambda>v. v ! i) (vecs (sol m')) = map (\<lambda>v. v ! i) (vecs (sol m))"
    if "i \<notin> set (it # its)" for i
  proof -
    from that have "i \<notin> set its" "i \<noteq> it" by auto
    then have "map (\<lambda>v. v ! i) (vecs (sol m')) = map (\<lambda>v. v ! i) (vecs (sol m1))"
      using IH by blast
    also have "\<dots> = map (\<lambda>v. v ! i) (vecs (sol m))"
      using \<open>i \<noteq> it\<close> by (simp add: s1 vecs_def)
    finally show ?thesis .
  qed
  from a b c1 c2 e show ?case by auto
qed

lemma sweep_loop_discrete_total:
  assumes "epsilon (par m) \<noteq> 0" "\<forall>it\<in>set its. it < length (wF_vec (par m))"
  shows "\<exists>m'. sweep_loop (sweep_step solve_discrete sc True) its m = Inr m'"
  using assms
proof (induction its arbitrary: m)
  case Nil
  then show ?case by simp
next
  case (Cons it its)
  let ?m1 = "m\<lparr>par := (par m)\<lparr>wF := wF_vec (par m) ! it\<rparr>\<rparr>"
  have "epsilon (par ?m1) \<noteq> 0" using Cons.prems by simp
  then obtain c where "solve_discrete (par ?m1) = Inr c" using solve_discrete_total by blast
  then have s: "sweep_step solve_discrete sc True it m = Inr ?m1"
    using Cons.prems by (simp add: sweep_step_def get_def Let_def)
  have "\<exists>m'. sweep_loop (sweep_step solve_discrete sc True) its ?m1 = Inr m'"
    by (rule Cons.IH) (use Cons.prems in auto)
  with s show ?case by simp
qed

text \<open>
  Claim C6.  After \<open>solve_wF_vec\<close>: in discrete mode the solution vectors (and the
  regression coefficients) are as before; in continuous mode entry \<open>it\<close> of each vector
  holds the component of the solver's result for \<open>wF_vec[it]\<close>; in both modes, for a
  non-empty \<open>wF_vec\<close>, \<open>par.wF\<close> is the last element of \<open>wF_vec\<close> and no other parameter
  has changed.  The last element of the default vector is 1.2.
\<close>

theorem solve_wF_vec_effects:
  "(solve_wF_vec mn True m = Inr m' \<longrightarrow> sol m' = sol m)
   \<and> (solve_wF_vec mn False m = Inr m' \<longrightarrow>
        (\<forall>it<length (wF_vec (par m)).
           \<exists>res. solve_cont mn ((par m)\<lparr>wF := wF_vec (par m) ! it\<rparr>) = Inr res
             \<and> LM_vec (sol m') ! it = res ! 0 \<and> HM_vec (sol m') ! it = res ! 1
             \<and> LF_vec (sol m') ! it = res ! 2 \<and> HF_vec (sol m') ! it = res ! 3))
   \<and> (solve_wF_vec mn d m = Inr m' \<and> wF_vec (par m) \<noteq> [] \<longrightarrow>
        par m' = (par m)\<lparr>wF := last (wF_vec (par m))\<rparr> \<and> wF (par m') = last (wF_vec (par m)))
   \<and> last (wF_vec init_par) = 12 / 10"
proof -
  let ?n = "length (wF_vec (par m))"
  have 1: "sol m' = sol m" if "solve_wF_vec mn True m = Inr m'"
    using that sweep_loop_discrete by (simp add: solve_wF_vec_def solve_wF_vec_with_def)
  have 2: "\<exists>res. solve_cont mn ((par m)\<lparr>wF := wF_vec (par m) ! it\<rparr>) = Inr res
             \<and> LM_vec (sol m') ! it = res ! 0 \<and> HM_vec (sol m') ! it = res ! 1
             \<and> LF_vec (sol m') ! it = res ! 2 \<and> HF_vec (sol m') ! it = res ! 3"
    if run: "solve_wF_vec mn False m = Inr m'" and it: "it < ?n" for it
  proof -
    have l: "sweep_loop (sweep_step solve_discrete (solve_cont mn) False) [0..<?n] m = Inr m'"
      using run by (simp add: solve_wF_vec_def solve_wF_vec_with_def)
    have "it \<in> set [0..<?n]" using it by simp
    with sweep_loop_cont [OF l] obtain res where
      r: "solve_cont mn ((par m)\<lparr>wF := wF_vec (par m) ! it\<rparr>) = Inr res" "4 \<le> length res"
      "map (\<lambda>v. v ! it) (vecs (sol m')) = take 4 res"
      by (meson distinct_upt)
    have "map (\<lambda>v. v ! it) (vecs (sol m')) = [res ! 0, res ! 1, res ! 2, res ! 3]"
      using r(3) take4 [OF r(2)] by simp
    then show ?thesis using r(1) by (simp add: vecs_def)
  qed
  have 3: "par m' = (par m)\<lparr>wF := last (wF_vec (par m))\<rparr> \<and> wF (par m') = last (wF_vec (par m))"
    if run: "solve_wF_vec mn d m = Inr m'" and ne: "wF_vec (par m) \<noteq> []"
  proof -
    have l: "sweep_loop (sweep_step solve_discrete (solve_cont mn) d) [0..<?n] m = Inr m'"
      using run by (simp add: solve_wF_vec_def solve_wF_vec_with_def)
    have n: "0 < ?n" using ne by simp
    then have "[0..<?n] \<noteq> []" by simp
    moreover have "last [0..<?n] = ?n - 1" using n by (cases ?n) simp_all
    moreover have "wF_vec (par m) ! (?n - 1) = last (wF_vec (par m))"
      using ne by (simp add: last_conv_nth)
    ultimately have "par m' = (par m)\<lparr>wF := last (wF_vec (par m))\<rparr>"
      using sweep_loop_par [OF l] by simp
    then show ?thesis by simp
  qed
  have 4: "last (wF_vec init_par) = 12 / 10"
    by (simp add: init_par_def linspace_def)
  from 1 2 3 4 show ?thesis by blast
qed

lemma linspace_wF: "linspace (8 / 10) (12 / 10) 5 = [8 / 10, 9 / 10, 1, 11 / 10, 12 / 10]"
proof -
  have "[0..<4] = [0, 1, 2, 3::nat]" by code_simp
  then show ?thesis by (simp add: linspace_def)
qed

lemma linspace_wF_norm: "linspace (4 / 5) (6 / 5) 5 = [4 / 5, 9 / 10, 1, 11 / 10, 6 / 5]"
  using linspace_wF by simp

lemma sweep_loop_cont_total:
  assumes "\<And>p. \<exists>res. sc p = Inr res \<and> 4 \<le> length res"
    and "\<forall>it\<in>set its. it < length (wF_vec (par m)) \<and> list_all (\<lambda>v. it < length v) (vecs (sol m))"
  shows "\<exists>m'. sweep_loop (sweep_step sd sc False) its m = Inr m'"
  using assms(2)
proof (induction its arbitrary: m)
  case Nil
  then show ?case by simp
next
  case (Cons it its)
  let ?p = "(par m)\<lparr>wF := wF_vec (par m) ! it\<rparr>"
  from assms(1) obtain res where res: "sc ?p = Inr res" "4 \<le> length res" by blast
  let ?m1 = "m\<lparr>par := ?p, sol := (sol m)\<lparr>LM_vec := (LM_vec (sol m))[it := res ! 0],
                       HM_vec := (HM_vec (sol m))[it := res ! 1],
                       LF_vec := (LF_vec (sol m))[it := res ! 2],
                       HF_vec := (HF_vec (sol m))[it := res ! 3]\<rparr>\<rparr>"
  have l: "0 < length res" "1 < length res" "2 < length res" "3 < length res"
    using res(2) by linarith+
  have s: "sweep_step sd sc False it m = Inr ?m1"
    using Cons.prems res(1) l by (simp add: sweep_step_def get_def store_def Let_def vecs_def)
  have "\<exists>m'. sweep_loop (sweep_step sd sc False) its ?m1 = Inr m'"
    by (rule Cons.IH) (use Cons.prems in \<open>simp add: vecs_def\<close>)
  with s show ?case by simp
qed

lemma solve_wF_vec_discrete_total:
  assumes "epsilon (par m) \<noteq> 0"
  shows "\<exists>m'. solve_wF_vec mn True m = Inr m'"
  unfolding solve_wF_vec_def solve_wF_vec_with_def
  by (rule sweep_loop_discrete_total) (use assms in auto)

theorem solve_wF_vec_effects_witness:
  "(\<exists>m'. solve_wF_vec (\<lambda>f x0 b c t. Inr (map Fin x0)) False init_model = Inr m'
      \<and> par m' = init_par\<lparr>wF := 12 / 10\<rparr>
      \<and> LM_vec (sol m') ! 0 = Fin 4 \<and> HM_vec (sol m') ! 1 = Fin 4
      \<and> LF_vec (sol m') ! 2 = Fin 4 \<and> HF_vec (sol m') ! 4 = Fin 4)
   \<and> (\<exists>m'. solve_wF_vec (\<lambda>f x0 b c t. Inr (map Fin x0)) True init_model = Inr m'
      \<and> sol m' = sol init_model \<and> wF (par m') = 12 / 10)"
proof -
  let ?mn = "(\<lambda>f x0 b c t. Inr (map Fin x0)) :: slsqp"
  have sc: "solve_cont ?mn p = Inr [Fin 4, Fin 4, Fin 4, Fin 4]" for p :: parameters
    by (simp add: solve_cont_def initial_guess_def numeral_eq_Suc)
  have ne: "wF_vec (par init_model) \<noteq> []" and n5: "length (wF_vec (par init_model)) = 5"
    and lst: "last (wF_vec (par init_model)) = 12 / 10"
    by (simp_all add: init_model_def init_par_def linspace_wF_norm)
  have pm: "par init_model = init_par" by (simp add: init_model_def)
  have "\<exists>m'. solve_wF_vec ?mn False init_model = Inr m'"
    unfolding solve_wF_vec_def solve_wF_vec_with_def
  proof (rule sweep_loop_cont_total)
    show "\<exists>res. solve_cont ?mn p = Inr res \<and> 4 \<le> length res" for p :: parameters
      by (simp add: sc)
    show "\<forall>it\<in>set [0..<length (wF_vec (par init_model))].
        it < length (wF_vec (par init_model)) \<and>
        list_all (\<lambda>v. it < length v) (vecs (sol init_model))"
      by (simp add: init_model_def init_sol_def zeros_def vecs_def)
  qed
  then obtain m1 where m1: "solve_wF_vec ?mn False init_model = Inr m1" by blast
  note t1 = solve_wF_vec_effects [of ?mn init_model m1 False]
  have p1: "par m1 = init_par\<lparr>wF := 12 / 10\<rparr>"
    using t1 m1 ne lst pm by simp
  have e: "\<exists>res. solve_cont ?mn ((par init_model)\<lparr>wF := wF_vec (par init_model) ! it\<rparr>) = Inr res
             \<and> LM_vec (sol m1) ! it = res ! 0 \<and> HM_vec (sol m1) ! it = res ! 1
             \<and> LF_vec (sol m1) ! it = res ! 2 \<and> HF_vec (sol m1) ! it = res ! 3"
    if "it < 5" for it
    using t1 m1 that n5 by simp
  have v: "LM_vec (sol m1) ! 0 = Fin 4 \<and> HM_vec (sol m1) ! 1 = Fin 4
      \<and> LF_vec (sol m1) ! 2 = Fin 4 \<and> HF_vec (sol m1) ! 4 = Fin 4"
    using e [of 0] e [of 1] e [of 2] e [of 4] by (auto simp: sc)
  have "epsilon (par init_model) \<noteq> 0" by (simp add: init_model_def init_par_def)
  then obtain m2 where m2: "solve_wF_vec ?mn True init_model = Inr m2"
    using solve_wF_vec_discrete_total by blast
  note t2 = solve_wF_vec_effects [of ?mn init_model m2 True]
  have "sol m2 = sol init_model \<and> wF (par m2) = 12 / 10"
    using t2 m2 ne lst by simp
  with m1 p1 v m2 show ?thesis by blast
qed

section \<open>Properties of est and estimate\<close>

lemma run_regression_Inr:
  assumes "run_regression L m = Inr m'"
  shows "\<exists>q b0 b1. broadcast2 np_div (HF_vec (sol m)) (HM_vec (sol m)) = Inr q
     \<and> L (design_matrix (regressor (par m))) (map np_log q) = Inr [b0, b1]
     \<and> m' = m\<lparr>sol := (sol m)\<lparr>beta0 := b0, beta1 := b1\<rparr>\<rparr>"
proof -
  from assms obtain q b where q: "broadcast2 np_div (HF_vec (sol m)) (HM_vec (sol m)) = Inr q"
    and b: "L (design_matrix (regressor (par m))) (map np_log q) = Inr b"
    and c: "(case b of [b0, b1] \<Rightarrow> Inr (m\<lparr>sol := (sol m)\<lparr>beta0 := b0, beta1 := b1\<rparr>\<rparr>)
              | _ \<Rightarrow> Inl ValueError) = Inr m'"
    by (auto simp: run_regression_def Let_def ebind_Inr_iff)
  from c obtain b0 b1 where "b = [b0, b1]"
    by (cases b; cases "tl b"; cases "tl (tl b)") auto
  with q b c show ?thesis by auto
qed

text \<open>
  Claim C3.  A call of \<open>est\<close> that returns has written \<open>x[0]\<close> and \<open>x[1]\<close> to \<open>alpha\<close> and
  \<open>sigma\<close> (variant A) or \<open>x[0]\<close> to \<open>sigma\<close> (variant B), then run the continuous sweep
  and then the regression on its result, and returns the squared distance of the
  coefficients that this regression has just fitted from the targets.  The outer search
  of variant B starts from \<open>[0.1]\<close> with the bound \<open>(0.01, 0.99)\<close>.
\<close>

theorem est_trial:
  "(est L M x m = Inr (v, m') \<longrightarrow>
      (\<exists>m3 q. 2 \<le> length x
         \<and> solve_wF_vec M False (m\<lparr>par := (par m)\<lparr>alpha := x ! 0, sigma := x ! 1\<rparr>\<rparr>) = Inr m3
         \<and> run_regression L m3 = Inr m'
         \<and> broadcast2 np_div (HF_vec (sol m3)) (HM_vec (sol m3)) = Inr q
         \<and> L (design_matrix (regressor (par m3))) (map np_log q) = Inr [beta0 (sol m'), beta1 (sol m')]
         \<and> v = np_add (np_pow (np_sub (Fin (beta0_target (par m'))) (beta0 (sol m'))) 2)
                       (np_pow (np_sub (Fin (beta1_target (par m'))) (beta1 (sol m'))) 2)))
   \<and> (new_est L M xB mB = Inr (vB, mB') \<longrightarrow>
      (\<exists>m2 q. 1 \<le> length xB
         \<and> new_solve_wF_vec M False (mB\<lparr>par := (par mB)\<lparr>sigma := xB ! 0\<rparr>\<rparr>) = Inr m2
         \<and> run_regression L m2 = Inr mB'
         \<and> broadcast2 np_div (HF_vec (sol m2)) (HM_vec (sol m2)) = Inr q
         \<and> L (design_matrix (regressor (par m2))) (map np_log q) = Inr [beta0 (sol mB'), beta1 (sol mB')]
         \<and> vB = np_add (np_pow (np_sub (Fin (beta0_target (par mB'))) (beta0 (sol mB'))) 2)
                        (np_pow (np_sub (Fin (beta1_target (par mB'))) (beta1 (sol mB'))) 2)))
   \<and> new_estimate S L M sigma_arg do_print mB =
       S (new_est L M) [1 / 10] [(1 / 100, 99 / 100)] mB"
proof (intro conjI impI)
  assume a: "est L M x m = Inr (v, m')"
  then obtain m3 where l: "2 \<le> length x"
    and s: "solve_wF_vec M False (m\<lparr>par := (par m)\<lparr>alpha := x ! 0, sigma := x ! 1\<rparr>\<rparr>) = Inr m3"
    and r: "run_regression L m3 = Inr m'" and v: "v = objective m'"
    by (auto simp: est_def ebind_Inr_iff get_Inr_iff Let_def)
  from run_regression_Inr [OF r] obtain q b0 b1 where
    q: "broadcast2 np_div (HF_vec (sol m3)) (HM_vec (sol m3)) = Inr q"
    and b: "L (design_matrix (regressor (par m3))) (map np_log q) = Inr [b0, b1]"
    and m': "m' = m3\<lparr>sol := (sol m3)\<lparr>beta0 := b0, beta1 := b1\<rparr>\<rparr>" by blast
  have "L (design_matrix (regressor (par m3))) (map np_log q) = Inr [beta0 (sol m'), beta1 (sol m')]"
    using b m' by simp
  with l s r q v show "\<exists>m3 q. 2 \<le> length x
         \<and> solve_wF_vec M False (m\<lparr>par := (par m)\<lparr>alpha := x ! 0, sigma := x ! 1\<rparr>\<rparr>) = Inr m3
         \<and> run_regression L m3 = Inr m'
         \<and> broadcast2 np_div (HF_vec (sol m3)) (HM_vec (sol m3)) = Inr q
         \<and> L (design_matrix (regressor (par m3))) (map np_log q) = Inr [beta0 (sol m'), beta1 (sol m')]
         \<and> v = np_add (np_pow (np_sub (Fin (beta0_target (par m'))) (beta0 (sol m'))) 2)
                       (np_pow (np_sub (Fin (beta1_target (par m'))) (beta1 (sol m'))) 2)"
    unfolding objective_def by blast
next
  assume a: "new_est L M xB mB = Inr (vB, mB')"
  then obtain m2 where l: "1 \<le> length xB"
    and s: "new_solve_wF_vec M False (mB\<lparr>par := (par mB)\<lparr>sigma := xB ! 0\<rparr>\<rparr>) = Inr m2"
    and r: "run_regression L m2 = Inr mB'" and v: "vB = objective mB'"
    by (auto simp: new_est_def ebind_Inr_iff get_Inr_iff Let_def Suc_le_eq)
  from run_regression_Inr [OF r] obtain q b0 b1 where
    q: "broadcast2 np_div (HF_vec (sol m2)) (HM_vec (sol m2)) = Inr q"
    and b: "L (design_matrix (regressor (par m2))) (map np_log q) = Inr [b0, b1]"
    and m': "mB' = m2\<lparr>sol := (sol m2)\<lparr>beta0 := b0, beta1 := b1\<rparr>\<rparr>" by blast
  have "L (design_matrix (regressor (par m2))) (map np_log q) = Inr [beta0 (sol mB'), beta1 (sol mB')]"
    using b m' by simp
  with l s r q v show "\<exists>m2 q. 1 \<le> length xB
         \<and> new_solve_wF_vec M False (mB\<lparr>par := (par mB)\<lparr>sigma := xB ! 0\<rparr>\<rparr>) = Inr m2
         \<and> run_regression L m2 = Inr mB'
         \<and> broadcast2 np_div (HF_vec (sol m2)) (HM_vec (sol m2)) = Inr q
         \<and> L (design_matrix (regressor (par m2))) (map np_log q) = Inr [beta0 (sol mB'), beta1 (sol mB')]
         \<and> vB = np_add (np_pow (np_sub (Fin (beta0_target (par mB'))) (beta0 (sol mB'))) 2)
                        (np_pow (np_sub (Fin (beta1_target (par mB'))) (beta1 (sol mB'))) 2)"
    unfolding objective_def by blast
next
  show "new_estimate S L M sigma_arg do_print mB =
       S (new_est L M) [1 / 10] [(1 / 100, 99 / 100)] mB"
    by (simp add: new_estimate_def)
qed

text \<open>
  Claim C10.  The arguments \<open>alpha\<close>, \<open>sigma\<close> and \<open>do_print\<close> of \<open>estimate\<close> (variant A) and
  \<open>sigma\<close> and \<open>do_print\<close> (variant B) have no effect: two calls on the same model object
  that differ in them are the same call of the search, which starts from \<open>[0.5, 0.1]\<close> in
  variant A and from \<open>[0.1]\<close> in variant B.
\<close>

theorem estimate_ignores_arguments:
  "estimate S L M alpha_arg sigma_arg do_print m = estimate S L M alpha_arg' sigma_arg' do_print' m
   \<and> new_estimate SB L M sigma_argB do_printB mB = new_estimate SB L M sigma_argB' do_printB' mB
   \<and> estimate S L M alpha_arg sigma_arg do_print m =
       S (est L M) [5 / 10, 1 / 10] [(1 / 100, 99 / 100), (1 / 100, 99 / 100)] m
   \<and> new_estimate SB L M sigma_argB do_printB mB =
       SB (new_est L M) [1 / 10] [(1 / 100, 99 / 100)] mB"
  by (simp add: estimate_def new_estimate_def numeral_eq_Suc)

section \<open>The disutility term\<close>

lemma np_mul_distrib:
  "np_mul (Fin a) (np_add x y) = np_add (np_mul (Fin a) x) (np_mul (Fin a) y)"
  by (cases x; cases y) (auto simp: inf_sgn_def algebra_simps)

lemma disutility_variants_agree:
  "eta p = nu p \<Longrightarrow> new_disutility p lm hm lf hf = disutility p lm hm lf hf"
  by (simp add: new_disutility_def disutility_def Let_def np_mul_distrib)

lemma calc_utility_variants_agree:
  "eta p = nu p \<Longrightarrow> new_calc_utility p lm hm lf hf = calc_utility p lm hm lf hf"
  by (simp add: new_calc_utility_def calc_utility_def new_calc_value_def calc_value_def
      disutility_variants_agree)

lemma disutility_unfloored:
  assumes "sigma p = 0 \<or> sigma p = 1 \<or> (1 / 10 ^ 7 \<le> hm \<and> 1 / 10 ^ 7 \<le> hf)"
  shows "calc_value p (Fin lm) (Fin hm) (Fin lf) (Fin hf) =
     np_sub (consumption_utility p (market_consumption p (Fin lm) (Fin lf))
               (fst (home_production p (Fin hm) (Fin hf))))
            (disutility p (Fin lm) (Fin hm) (Fin lf) (Fin hf))"
proof -
  have "snd (home_production p (Fin hm) (Fin hf)) = (Fin hm, Fin hf)"
  proof (cases "sigma p = 0 \<or> sigma p = 1")
    case True
    then show ?thesis by (auto simp: home_production_def)
  next
    case False
    with assms have "max hm (1 / 10 ^ 7) = hm" "max hf (1 / 10 ^ 7) = hf" by (simp_all add: max_def)
    with False show ?thesis by (simp add: home_production_def Let_def)
  qed
  then show ?thesis by (simp add: calc_value_unfold)
qed

text \<open>
  Claim C5 at \<open>sigma = 0.5\<close> and the choice \<open>(LM, HM, LF, HF) = (24, 0, 0, 0)\<close>, other
  parameters at their defaults.  The claimed disutility \<open>nu*(TM^e/e + TF^e/e)\<close> with
  \<open>TM = LM+HM = 24\<close> and \<open>TF = LF+HF = 0\<close> is 0.288.  The term that the body subtracts is
  computed from the floored \<open>HM\<close> and \<open>HF\<close>, that is from \<open>TM = 24 + 1e-7\<close> and
  \<open>TF = 1e-7\<close>, and is larger.
\<close>

theorem disutility_floored_hours:
  "calc_value (init_par\<lparr>sigma := 1 / 2\<rparr>) (Fin 24) (Fin 0) (Fin 0) (Fin 0) =
     np_sub (consumption_utility (init_par\<lparr>sigma := 1 / 2\<rparr>)
               (market_consumption (init_par\<lparr>sigma := 1 / 2\<rparr>) (Fin 24) (Fin 0))
               (fst (home_production (init_par\<lparr>sigma := 1 / 2\<rparr>) (Fin 0) (Fin 0))))
            (Fin (288 / 1000 + 24 / 10 ^ 10 + 1 / 10 ^ 17))
   \<and> disutility (init_par\<lparr>sigma := 1 / 2\<rparr>) (Fin 24) (Fin 0) (Fin 0) (Fin 0) = Fin (288 / 1000)"
  by (simp add: calc_value_def home_production_def disutility_def Let_def init_par_def
      power2_eq_square)


section \<open>Properties of run_regression\<close>

lemma length5:
  assumes "length xs = 5"
  shows "\<exists>a b c d e. xs = [a, b, c, d, e]"
proof -
  from assms obtain a t1 where 1: "xs = a # t1" "length t1 = 4" by (cases xs) auto
  then obtain b t2 where 2: "t1 = b # t2" "length t2 = 3" by (cases t1) auto
  then obtain c t3 where 3: "t2 = c # t3" "length t3 = 2" by (cases t2) auto
  then obtain d t4 where 4: "t3 = d # t4" "length t4 = 1" by (cases t3) auto
  then obtain e where 5: "t4 = [e]" by (cases t4) auto
  from 1 2 3 4 5 show ?thesis by blast
qed

lemma ln_wF_nonzero: "ln (4 / 5 :: real) \<noteq> 0"
  by simp

lemma squares5:
  fixes a :: real
  assumes "a\<^sup>2 + (b\<^sup>2 + (c\<^sup>2 + (d\<^sup>2 + e\<^sup>2))) \<le> 0"
  shows "a = 0 \<and> c = 0"
proof -
  have "0 \<le> a\<^sup>2" "0 \<le> b\<^sup>2" "0 \<le> c\<^sup>2" "0 \<le> d\<^sup>2" "0 \<le> e\<^sup>2" by simp_all
  with assms have "a\<^sup>2 \<le> 0" "c\<^sup>2 \<le> 0" by linarith+
  then show ?thesis by simp
qed

lemma run_regression_finite:
  assumes pos: "\<forall>w\<in>set (wF_vec (par m)). 0 < w" and wm: "wM (par m) = 1"
    and hm: "HM_vec (sol m) = map Fin hms" and hf: "HF_vec (sol m) = map Fin hfs"
    and len: "length hms = length hfs"
    and hpos: "\<forall>(f, h)\<in>set (zip hfs hms). 0 < f \<and> 0 < h"
    and L: "L (map (\<lambda>x. [Fin 1, Fin x]) (map ln (wF_vec (par m))))
              (map Fin (map (\<lambda>(f, h). ln (f / h)) (zip hfs hms))) = Inr [b0, b1]"
  shows "run_regression L m = Inr (m\<lparr>sol := (sol m)\<lparr>beta0 := b0, beta1 := b1\<rparr>\<rparr>)"
proof -
  have A: "design_matrix (regressor (par m)) = map (\<lambda>x. [Fin 1, Fin x]) (map ln (wF_vec (par m)))"
    using pos wm by (simp add: design_matrix_def regressor_def)
  have q: "broadcast2 np_div (HF_vec (sol m)) (HM_vec (sol m)) =
      Inr (map (\<lambda>(f, h). np_div (Fin f) (Fin h)) (zip hfs hms))"
    using len by (simp add: broadcast2_def hm hf zip_map_map split_def)
  have y: "map np_log (map (\<lambda>(f, h). np_div (Fin f) (Fin h)) (zip hfs hms)) =
      map Fin (map (\<lambda>(f, h). ln (f / h)) (zip hfs hms))"
    using hpos by (auto simp: split_def)
  show ?thesis
    unfolding run_regression_def Let_def A q ebind.simps y L by simp
qed

text \<open>
  Claim C4.  \<open>run_regression\<close> passes to the least-squares routine the design matrix
  with the rows \<open>[1, log(wF_vec[i]/wM)]\<close> and the right-hand side \<open>log(HF_vec/HM_vec)\<close>, and
  stores the two entries of the solution as \<open>beta0\<close> and \<open>beta1\<close>.  Round trip: with
  \<open>wM = 1\<close>, the default \<open>wF_vec\<close> and positive solution vectors for which
  \<open>y = 0.4 - 0.1*x\<close> holds exactly, a routine that returns a finite minimiser of the
  residual sum of squares gives \<open>beta0 = 0.4\<close> and \<open>beta1 = -0.1\<close> (exactly, the arithmetic
  being exact).
\<close>

theorem regression_least_squares:
  "(run_regression L m = Inr m' \<longrightarrow>
      (\<exists>q b0 b1. broadcast2 np_div (HF_vec (sol m)) (HM_vec (sol m)) = Inr q
         \<and> L (map (\<lambda>w. [Fin 1, np_log (np_div (Fin w) (Fin (wM (par m))))]) (wF_vec (par m)))
              (map np_log q) = Inr [b0, b1]
         \<and> m' = m\<lparr>sol := (sol m)\<lparr>beta0 := b0, beta1 := b1\<rparr>\<rparr>))
   \<and> (wM (par m) = 1 \<and> wF_vec (par m) = linspace (8 / 10) (12 / 10) 5
      \<and> HM_vec (sol m) = map Fin hms \<and> HF_vec (sol m) = map Fin hfs
      \<and> length hms = 5 \<and> length hfs = 5
      \<and> (\<forall>i<5. 0 < hms ! i \<and> 0 < hfs ! i
            \<and> ln (hfs ! i / hms ! i) = 4 / 10 - 1 / 10 * ln (wF_vec (par m) ! i / wM (par m)))
      \<and> L (map (\<lambda>x. [Fin 1, Fin x]) (map ln (wF_vec (par m))))
           (map Fin (map (\<lambda>(f, h). ln (f / h)) (zip hfs hms))) = Inr [Fin c0, Fin c1]
      \<and> (\<forall>d0 d1. rss (map ln (wF_vec (par m))) (map (\<lambda>(f, h). ln (f / h)) (zip hfs hms)) c0 c1
                 \<le> rss (map ln (wF_vec (par m))) (map (\<lambda>(f, h). ln (f / h)) (zip hfs hms)) d0 d1)
      \<longrightarrow> run_regression L m =
            Inr (m\<lparr>sol := (sol m)\<lparr>beta0 := Fin (4 / 10), beta1 := Fin (- (1 / 10))\<rparr>\<rparr>))"
proof (intro conjI impI)
  assume "run_regression L m = Inr m'"
  from run_regression_Inr [OF this]
  show "\<exists>q b0 b1. broadcast2 np_div (HF_vec (sol m)) (HM_vec (sol m)) = Inr q
         \<and> L (map (\<lambda>w. [Fin 1, np_log (np_div (Fin w) (Fin (wM (par m))))]) (wF_vec (par m)))
              (map np_log q) = Inr [b0, b1]
         \<and> m' = m\<lparr>sol := (sol m)\<lparr>beta0 := b0, beta1 := b1\<rparr>\<rparr>"
    by (simp add: design_matrix_def regressor_def o_def)
next
  assume a: "wM (par m) = 1 \<and> wF_vec (par m) = linspace (8 / 10) (12 / 10) 5
      \<and> HM_vec (sol m) = map Fin hms \<and> HF_vec (sol m) = map Fin hfs
      \<and> length hms = 5 \<and> length hfs = 5
      \<and> (\<forall>i<5. 0 < hms ! i \<and> 0 < hfs ! i
            \<and> ln (hfs ! i / hms ! i) = 4 / 10 - 1 / 10 * ln (wF_vec (par m) ! i / wM (par m)))
      \<and> L (map (\<lambda>x. [Fin 1, Fin x]) (map ln (wF_vec (par m))))
           (map Fin (map (\<lambda>(f, h). ln (f / h)) (zip hfs hms))) = Inr [Fin c0, Fin c1]
      \<and> (\<forall>d0 d1. rss (map ln (wF_vec (par m))) (map (\<lambda>(f, h). ln (f / h)) (zip hfs hms)) c0 c1
                 \<le> rss (map ln (wF_vec (par m))) (map (\<lambda>(f, h). ln (f / h)) (zip hfs hms)) d0 d1)"
  then have wm: "wM (par m) = 1" and ws: "wF_vec (par m) = [8 / 10, 9 / 10, 1, 11 / 10, 12 / 10]"
    and hm: "HM_vec (sol m) = map Fin hms" and hf: "HF_vec (sol m) = map Fin hfs"
    and l5: "length hms = 5" "length hfs = 5"
    by (simp_all add: linspace_wF_norm)
  from a have fit: "\<forall>i<5. 0 < hms ! i \<and> 0 < hfs ! i
            \<and> ln (hfs ! i / hms ! i) = 4 / 10 - 1 / 10 * ln (wF_vec (par m) ! i / wM (par m))"
    by blast
  from a have L: "L (map (\<lambda>x. [Fin 1, Fin x]) (map ln (wF_vec (par m))))
           (map Fin (map (\<lambda>(f, h). ln (f / h)) (zip hfs hms))) = Inr [Fin c0, Fin c1]"
    by blast
  from a have least: "rss (map ln (wF_vec (par m))) (map (\<lambda>(f, h). ln (f / h)) (zip hfs hms)) c0 c1
                 \<le> rss (map ln (wF_vec (par m))) (map (\<lambda>(f, h). ln (f / h)) (zip hfs hms)) d0 d1"
    for d0 d1 by blast
  from length5 [OF l5(1)] obtain h0 h1 h2 h3 h4 where hms: "hms = [h0, h1, h2, h3, h4]" by blast
  from length5 [OF l5(2)] obtain f0 f1 f2 f3 f4 where hfs: "hfs = [f0, f1, f2, f3, f4]" by blast
  have p: "0 < h0" "0 < h1" "0 < h2" "0 < h3" "0 < h4" "0 < f0" "0 < f1" "0 < f2" "0 < f3" "0 < f4"
    using fit [rule_format, of 0] fit [rule_format, of 1] fit [rule_format, of 2]
      fit [rule_format, of 3] fit [rule_format, of 4]
    by (simp_all add: hms hfs)
  have y: "ln (f0 / h0) = 4 / 10 - 1 / 10 * ln (8 / 10)"
    "ln (f1 / h1) = 4 / 10 - 1 / 10 * ln (9 / 10)"
    "ln (f2 / h2) = 4 / 10 - 1 / 10 * ln 1"
    "ln (f3 / h3) = 4 / 10 - 1 / 10 * ln (11 / 10)"
    "ln (f4 / h4) = 4 / 10 - 1 / 10 * ln (12 / 10)"
    using fit [rule_format, of 0] fit [rule_format, of 1] fit [rule_format, of 2]
      fit [rule_format, of 3] fit [rule_format, of 4]
    by (simp_all add: hms hfs ws wm)
  have zero: "rss (map ln (wF_vec (par m))) (map (\<lambda>(f, h). ln (f / h)) (zip hfs hms))
      (4 / 10) (- (1 / 10)) = 0"
    unfolding rss_def ws hms hfs by (simp add: y)
  have "rss (map ln (wF_vec (par m))) (map (\<lambda>(f, h). ln (f / h)) (zip hfs hms)) c0 c1 \<le> 0"
    using least [of "4 / 10" "- (1 / 10)"] zero by simp
  then have "(c0 + c1 * ln (8 / 10) - ln (f0 / h0))\<^sup>2 +
     ((c0 + c1 * ln (9 / 10) - ln (f1 / h1))\<^sup>2 +
      ((c0 + c1 * ln 1 - ln (f2 / h2))\<^sup>2 +
       ((c0 + c1 * ln (11 / 10) - ln (f3 / h3))\<^sup>2 +
        (c0 + c1 * ln (12 / 10) - ln (f4 / h4))\<^sup>2))) \<le> 0"
    unfolding rss_def ws hms hfs by simp
  from squares5 [OF this]
  have e0: "c0 + c1 * ln (8 / 10) - ln (f0 / h0) = 0" and e2: "c0 + c1 * ln 1 - ln (f2 / h2) = 0"
    by simp_all
  from e2 have c0: "c0 = 4 / 10" unfolding y by simp
  from e0 have "c1 * ln (8 / 10) = - (1 / 10) * ln (8 / 10)" unfolding y c0 by simp
  moreover have "ln (8 / 10 :: real) \<noteq> 0" by simp
  ultimately have c1: "c1 = - (1 / 10)"
    using mult_right_cancel [of "ln (8 / 10 :: real)" c1 "- (1 / 10)"] by blast
  have "run_regression L m = Inr (m\<lparr>sol := (sol m)\<lparr>beta0 := Fin c0, beta1 := Fin c1\<rparr>\<rparr>)"
  proof -
    have 1: "\<forall>w\<in>set (wF_vec (par m)). 0 < w" by (simp add: ws)
    have 2: "length hms = length hfs" using l5 by simp
    have 3: "\<forall>(f, h)\<in>set (zip hfs hms). 0 < f \<and> 0 < h" using p by (simp add: hms hfs)
    show ?thesis
      by (rule run_regression_finite [where hms = hms and hfs = hfs]) (fact 1 wm hm hf 2 3 L)+
  qed
  then show "run_regression L m =
            Inr (m\<lparr>sol := (sol m)\<lparr>beta0 := Fin (4 / 10), beta1 := Fin (- (1 / 10))\<rparr>\<rparr>)"
    by (simp add: c0 c1)
qed

subsection \<open>The closed-form solver on exact data\<close>

lemma sum_list_affine:
  "sum_list (map (\<lambda>x. a + b * x) xs) = real (length xs) * a + b * sum_list xs" for a b :: real
  by (induction xs) (simp_all add: algebra_simps)

lemma sum_list_xy_affine:
  "sum_list (map (\<lambda>(x, y). x * y) (zip xs (map (\<lambda>x. a + b * x) xs))) =
     a * sum_list xs + b * sum_list (map (\<lambda>x. x * x) xs)" for a b :: real
  by (induction xs) (simp_all add: algebra_simps)

lemma ols_fit_exact:
  assumes "real (length xs) * sum_list (map (\<lambda>x. x * x) xs) - sum_list xs * sum_list xs \<noteq> 0"
  shows "ols_fit xs (map (\<lambda>x. a + b * x) xs) = (a, b)"
proof -
  let ?n = "real (length xs)"
  let ?sx = "sum_list xs"
  let ?sxx = "sum_list (map (\<lambda>x. x * x) xs)"
  let ?d = "?n * ?sxx - ?sx * ?sx"
  have n: "?n \<noteq> 0" using assms by auto
  have "?n * (a * ?sx + b * ?sxx) - ?sx * (?n * a + b * ?sx) = b * ?d"
    by (simp add: algebra_simps)
  then have b1: "(?n * (a * ?sx + b * ?sxx) - ?sx * (?n * a + b * ?sx)) / ?d = b"
    using assms by simp
  have b0: "(?n * a + b * ?sx - b * ?sx) / ?n = a" using n by simp
  show ?thesis
    unfolding ols_fit_def Let_def sum_list_affine sum_list_xy_affine b1 b0 by simp
qed

lemma det5:
  fixes a b c d e :: real
  assumes "a \<noteq> c"
  shows "5 * (a * a + (b * b + (c * c + (d * d + e * e)))) - (a + (b + (c + (d + e)))) * (a + (b + (c + (d + e)))) \<noteq> 0"
proof -
  have "5 * (a * a + (b * b + (c * c + (d * d + e * e)))) - (a + (b + (c + (d + e)))) * (a + (b + (c + (d + e))))
      = (a - b)\<^sup>2 + (a - c)\<^sup>2 + (a - d)\<^sup>2 + (a - e)\<^sup>2 + (b - c)\<^sup>2 + (b - d)\<^sup>2 + (b - e)\<^sup>2
        + (c - d)\<^sup>2 + (c - e)\<^sup>2 + (d - e)\<^sup>2"
    by (simp add: power2_eq_square algebra_simps)
  moreover have "0 < (a - c)\<^sup>2" using assms by simp
  moreover have "0 \<le> (a - b)\<^sup>2" "0 \<le> (a - d)\<^sup>2" "0 \<le> (a - e)\<^sup>2" "0 \<le> (b - c)\<^sup>2" "0 \<le> (b - d)\<^sup>2"
    "0 \<le> (b - e)\<^sup>2" "0 \<le> (c - d)\<^sup>2" "0 \<le> (c - e)\<^sup>2" "0 \<le> (d - e)\<^sup>2" by simp_all
  ultimately show ?thesis by linarith
qed

lemma det_ln_wF:
  "real (length (map ln [4 / 5, 9 / 10, 1, 11 / 10, 6 / 5 :: real]))
     * sum_list (map (\<lambda>x. x * x) (map ln [4 / 5, 9 / 10, 1, 11 / 10, 6 / 5 :: real]))
   - sum_list (map ln [4 / 5, 9 / 10, 1, 11 / 10, 6 / 5 :: real])
     * sum_list (map ln [4 / 5, 9 / 10, 1, 11 / 10, 6 / 5 :: real]) \<noteq> 0"
proof -
  have "ln (4 / 5 :: real) \<noteq> ln 1" by simp
  from det5 [OF this, of "ln (9 / 10)" "ln (11 / 10)" "ln (6 / 5)"] show ?thesis by simp
qed

lemma ols_solver_exact:
  assumes "real (length xs) * sum_list (map (\<lambda>x. x * x) xs) - sum_list xs * sum_list xs \<noteq> 0"
  shows "ols_solver (map (\<lambda>x. [Fin 1, Fin x]) xs) (map Fin (map (\<lambda>x. a + b * x) xs)) = Inr [Fin a, Fin b]"
proof -
  have 1: "map (\<lambda>r. the_fin (r ! 1)) (map (\<lambda>x. [Fin 1, Fin x]) xs) = xs"
    by (induction xs) simp_all
  have 2: "map the_fin (map Fin ys) = ys" for ys by (induction ys) simp_all
  have 3: "list_all (\<lambda>r. length r = 2 \<and> list_all is_fin r) (map (\<lambda>x. [Fin 1, Fin x]) xs)"
    by (induction xs) simp_all
  have 4: "list_all is_fin (map Fin ys)" for ys by (induction ys) simp_all
  have c: "list_all (\<lambda>r. length r = 2 \<and> list_all is_fin r) (map (\<lambda>x. [Fin 1, Fin x]) xs)
      \<and> list_all is_fin (map Fin (map (\<lambda>x. a + b * x) xs))
      \<and> length (map (\<lambda>x. [Fin 1, Fin x]) xs) = length (map Fin (map (\<lambda>x. a + b * x) xs))"
    by (intro conjI 3 4) simp
  show ?thesis
    unfolding ols_solver_def 1 2 ols_fit_exact [OF assms]
    using c by simp
qed

lemma rss_nonneg: "0 \<le> rss xs ys b0 b1"
  unfolding rss_def by (rule sum_list_nonneg) auto

theorem regression_least_squares_witness:
  "run_regression ols_solver
     (init_model\<lparr>sol := (sol init_model)
        \<lparr>HM_vec := map Fin [1, 1, 1, 1, 1],
         HF_vec := map Fin (map (\<lambda>w. exp (4 / 10 - 1 / 10 * ln w)) [8 / 10, 9 / 10, 1, 11 / 10, 12 / 10])\<rparr>\<rparr>)
   = Inr (init_model\<lparr>sol := (sol init_model)
        \<lparr>HM_vec := map Fin [1, 1, 1, 1, 1],
         HF_vec := map Fin (map (\<lambda>w. exp (4 / 10 - 1 / 10 * ln w)) [8 / 10, 9 / 10, 1, 11 / 10, 12 / 10]),
         beta0 := Fin (4 / 10), beta1 := Fin (- (1 / 10))\<rparr>\<rparr>)"
proof -
  let ?hms = "[1, 1, 1, 1, 1 :: real]"
  let ?ws = "[8 / 10, 9 / 10, 1, 11 / 10, 12 / 10 :: real]"
  let ?hfs = "map (\<lambda>w. exp (4 / 10 - 1 / 10 * ln w)) ?ws"
  let ?m = "init_model\<lparr>sol := (sol init_model)\<lparr>HM_vec := map Fin ?hms, HF_vec := map Fin ?hfs\<rparr>\<rparr>"
  let ?xs = "map ln (wF_vec (par ?m))"
  let ?ys = "map (\<lambda>(f, h). ln (f / h)) (zip ?hfs ?hms)"
  have ws: "wF_vec (par ?m) = [4 / 5, 9 / 10, 1, 11 / 10, 6 / 5]"
    by (simp add: init_model_def init_par_def linspace_wF_norm)
  have ys: "?ys = map (\<lambda>x. 4 / 10 + (- (1 / 10)) * x) ?xs"
    unfolding ws by simp
  have h1: "wM (par ?m) = 1" by (simp add: init_model_def init_par_def)
  have h2: "wF_vec (par ?m) = linspace (8 / 10) (12 / 10) 5"
    by (simp add: init_model_def init_par_def)
  have h3: "HM_vec (sol ?m) = map Fin ?hms" by simp
  have h4: "HF_vec (sol ?m) = map Fin ?hfs" by simp
  have h5: "length ?hms = 5" "length ?hfs = 5" by simp_all
  have h6: "\<forall>i<5. 0 < ?hms ! i \<and> 0 < ?hfs ! i
            \<and> ln (?hfs ! i / ?hms ! i) = 4 / 10 - 1 / 10 * ln (wF_vec (par ?m) ! i / wM (par ?m))"
  proof (intro allI impI)
    fix i :: nat assume "i < 5"
    then have "i = 0 \<or> i = 1 \<or> i = 2 \<or> i = 3 \<or> i = 4" by linarith
    then show "0 < ?hms ! i \<and> 0 < ?hfs ! i
            \<and> ln (?hfs ! i / ?hms ! i) = 4 / 10 - 1 / 10 * ln (wF_vec (par ?m) ! i / wM (par ?m))"
      unfolding ws h1 by (elim disjE) simp_all
  qed
  have d: "real (length ?xs) * sum_list (map (\<lambda>x. x * x) ?xs) - sum_list ?xs * sum_list ?xs \<noteq> 0"
    unfolding ws by (rule det_ln_wF)
  have h7: "ols_solver (map (\<lambda>x. [Fin 1, Fin x]) ?xs) (map Fin ?ys) = Inr [Fin (4 / 10), Fin (- (1 / 10))]"
    unfolding ys by (rule ols_solver_exact [OF d])
  have z: "rss ?xs ?ys (4 / 10) (- (1 / 10)) = 0"
    unfolding ys ws rss_def by simp
  have h8: "\<forall>d0 d1. rss ?xs ?ys (4 / 10) (- (1 / 10)) \<le> rss ?xs ?ys d0 d1"
    unfolding z using rss_nonneg by blast
  note t = regression_least_squares [of ols_solver ?m ?m ?hms ?hfs "4 / 10" "- (1 / 10)", THEN conjunct2]
  have "run_regression ols_solver ?m =
      Inr (?m\<lparr>sol := (sol ?m)\<lparr>beta0 := Fin (4 / 10), beta1 := Fin (- (1 / 10))\<rparr>\<rparr>)"
    by (rule t [rule_format]) (intro conjI h1 h2 h3 h4 h5 h6 h7 h8)
  then show ?thesis by simp
qed

subsection \<open>A run of est on concrete library routines\<close>

lemma solve_cont_guess: "solve_cont guess_solver p = Inr [Fin 4, Fin 4, Fin 4, Fin 4]"
  by (simp add: solve_cont_def guess_solver_def initial_guess_def numeral_eq_Suc)

lemma new_solve_cont_guess: "new_solve_cont guess_solver p = Inr [Fin 4, Fin 4, Fin 4, Fin 4]"
  by (simp add: new_solve_cont_def guess_solver_def initial_guess_def numeral_eq_Suc)

lemma replicate_nth_eq:
  assumes "length xs = n" "\<forall>i<n. xs ! i = a"
  shows "xs = replicate n a"
  using assms by (intro nth_equalityI) simp_all

lemma sweep_loop_const:
  assumes run: "sweep_loop (sweep_step sd sc False) [0..<n] m = Inr m'"
    and sc: "\<And>p. sc p = Inr [a, b, c, d]"
    and len: "map length (vecs (sol m)) = [n, n, n, n]"
  shows "sol m' = (sol m)\<lparr>LM_vec := replicate n a, HM_vec := replicate n b,
                           LF_vec := replicate n c, HF_vec := replicate n d\<rparr>"
proof -
  note t = sweep_loop_cont [OF run distinct_upt]
  from t len have l: "map length (vecs (sol m')) = [n, n, n, n]" by simp
  from t have be: "beta0 (sol m') = beta0 (sol m)" "beta1 (sol m') = beta1 (sol m)" by simp_all
  have v: "map (\<lambda>v. v ! it) (vecs (sol m')) = [a, b, c, d]" if "it < n" for it
  proof -
    from that have "it \<in> set [0..<n]" by simp
    with t obtain res where "sc ((par m)\<lparr>wF := wF_vec (par m) ! it\<rparr>) = Inr res"
      "map (\<lambda>v. v ! it) (vecs (sol m')) = take 4 res" by blast
    then have "res = [a, b, c, d]" "map (\<lambda>v. v ! it) (vecs (sol m')) = take 4 res"
      by (simp_all add: sc)
    then show ?thesis by simp
  qed
  have 1: "LM_vec (sol m') = replicate n a"
    by (rule replicate_nth_eq) (use l v in \<open>auto simp: vecs_def\<close>)
  have 2: "HM_vec (sol m') = replicate n b"
    by (rule replicate_nth_eq) (use l v in \<open>auto simp: vecs_def\<close>)
  have 3: "LF_vec (sol m') = replicate n c"
    by (rule replicate_nth_eq) (use l v in \<open>auto simp: vecs_def\<close>)
  have 4: "HF_vec (sol m') = replicate n d"
    by (rule replicate_nth_eq) (use l v in \<open>auto simp: vecs_def\<close>)
  show ?thesis by (rule solution.equality) (simp_all add: 1 2 3 4 be)
qed

lemma replicate5: "replicate 5 x = [x, x, x, x, x]"
  by (simp add: numeral_eq_Suc)

lemma regression_after_guess:
  fixes m :: "'a parameters_scheme model"
  assumes ws: "wF_vec (par m) = [4 / 5, 9 / 10, 1, 11 / 10, 6 / 5]" and wm: "wM (par m) = 1"
    and hm: "HM_vec (sol m) = replicate 5 (Fin 4)" and hf: "HF_vec (sol m) = replicate 5 (Fin 4)"
  shows "run_regression ols_solver m = Inr (m\<lparr>sol := (sol m)\<lparr>beta0 := Fin 0, beta1 := Fin 0\<rparr>\<rparr>)"
proof -
  let ?h = "[4, 4, 4, 4, 4 :: real]"
  let ?xs = "map ln (wF_vec (par m))"
  have ys: "map (\<lambda>(f, h). ln (f / h)) (zip ?h ?h) = map (\<lambda>x. 0 + 0 * x) ?xs"
    unfolding ws by simp
  have d: "real (length ?xs) * sum_list (map (\<lambda>x. x * x) ?xs) - sum_list ?xs * sum_list ?xs \<noteq> 0"
    unfolding ws by (rule det_ln_wF)
  have 1: "\<forall>w\<in>set (wF_vec (par m)). 0 < w" by (simp add: ws)
  have 2: "HM_vec (sol m) = map Fin ?h" by (simp add: hm replicate5)
  have 3: "HF_vec (sol m) = map Fin ?h" by (simp add: hf replicate5)
  have 4: "length ?h = length ?h" by simp
  have 5: "\<forall>(f, h)\<in>set (zip ?h ?h). 0 < f \<and> 0 < h" by simp
  have 6: "ols_solver (map (\<lambda>x. [Fin 1, Fin x]) ?xs)
      (map Fin (map (\<lambda>(f, h). ln (f / h)) (zip ?h ?h))) = Inr [Fin 0, Fin 0]"
    unfolding ys by (rule ols_solver_exact [OF d])
  show ?thesis
    by (rule run_regression_finite [where hms = ?h and hfs = ?h]) (fact 1 wm 2 3 4 5 6)+
qed

lemma objective_value:
  assumes "beta0_target (par m) = 4 / 10" "beta1_target (par m) = - (1 / 10)"
    "beta0 (sol m) = Fin 0" "beta1 (sol m) = Fin 0"
  shows "np_add (np_pow (np_sub (Fin (beta0_target (par m))) (beta0 (sol m))) 2)
                (np_pow (np_sub (Fin (beta1_target (par m))) (beta1 (sol m))) 2) = Fin (17 / 100)"
  unfolding assms
  by (simp add: np_sub_def is_odd_int_def is_int_def power2_eq_square)

theorem est_trial_witness:
  "(\<exists>m'. est ols_solver guess_solver [1 / 2, 1 / 10] init_model = Inr (Fin (17 / 100), m')
      \<and> alpha (par m') = 1 / 2 \<and> sigma (par m') = 1 / 10
      \<and> beta0 (sol m') = Fin 0 \<and> beta1 (sol m') = Fin 0)
   \<and> (\<exists>m'. new_est ols_solver guess_solver [3 / 10] new_init_model = Inr (Fin (17 / 100), m')
      \<and> alpha (par m') = 1 / 2 \<and> sigma (par m') = 3 / 10
      \<and> beta0 (sol m') = Fin 0 \<and> beta1 (sol m') = Fin 0)"
proof (rule conjI)
  let ?m2 = "init_model\<lparr>par := (par init_model)\<lparr>alpha := 1 / 2, sigma := 1 / 10\<rparr>\<rparr>"
  have ws: "wF_vec (par ?m2) = [4 / 5, 9 / 10, 1, 11 / 10, 6 / 5]"
    by (simp add: init_model_def init_par_def linspace_wF_norm)
  have n: "length (wF_vec (par ?m2)) = 5" unfolding ws by simp
  have len: "map length (vecs (sol ?m2)) = [5, 5, 5, 5]"
    by (simp add: init_model_def init_sol_def zeros_def vecs_def init_par_def linspace_wF_norm)
  have "\<exists>m3. sweep_loop (sweep_step solve_discrete (solve_cont guess_solver) False) [0..<5] ?m2 = Inr m3"
  proof (rule sweep_loop_cont_total)
    show "\<exists>res. solve_cont guess_solver p = Inr res \<and> 4 \<le> length res" for p :: parameters
      by (simp add: solve_cont_guess)
    show "\<forall>it\<in>set [0..<5]. it < length (wF_vec (par ?m2)) \<and>
        list_all (\<lambda>v. it < length v) (vecs (sol ?m2))"
      unfolding n using len by (simp add: vecs_def)
  qed
  then obtain m3 where
    loop: "sweep_loop (sweep_step solve_discrete (solve_cont guess_solver) False) [0..<5] ?m2 = Inr m3"
    by blast
  then have run: "solve_wF_vec guess_solver False ?m2 = Inr m3"
    unfolding solve_wF_vec_def solve_wF_vec_with_def n .
  have s3: "sol m3 = (sol ?m2)\<lparr>LM_vec := replicate 5 (Fin 4), HM_vec := replicate 5 (Fin 4),
                           LF_vec := replicate 5 (Fin 4), HF_vec := replicate 5 (Fin 4)\<rparr>"
    by (rule sweep_loop_const [OF loop solve_cont_guess len])
  have p3: "par m3 = (par ?m2)\<lparr>wF := 6 / 5\<rparr>"
    using sweep_loop_par [OF loop] by (simp add: init_model_def init_par_def linspace_wF_norm)
  let ?m4 = "m3\<lparr>sol := (sol m3)\<lparr>beta0 := Fin 0, beta1 := Fin 0\<rparr>\<rparr>"
  have reg: "run_regression ols_solver m3 = Inr ?m4"
    by (rule regression_after_guess) (simp_all add: p3 s3 init_model_def init_par_def linspace_wF_norm)
  have e: "est ols_solver guess_solver [1 / 2, 1 / 10] init_model = Inr (objective ?m4, ?m4)"
    using run reg by (simp add: est_def get_def Let_def)
  from est_trial [where L = ols_solver and M = guess_solver and x = "[1 / 2, 1 / 10]"
      and m = init_model and v = "objective ?m4" and m' = ?m4,
      THEN conjunct1] e
  have "objective ?m4 = np_add (np_pow (np_sub (Fin (beta0_target (par ?m4))) (beta0 (sol ?m4))) 2)
                       (np_pow (np_sub (Fin (beta1_target (par ?m4))) (beta1 (sol ?m4))) 2)"
    by blast
  also have "\<dots> = Fin (17 / 100)"
    by (rule objective_value) (simp_all add: p3 init_model_def init_par_def)
  finally have "objective ?m4 = Fin (17 / 100)" .
  with e have "est ols_solver guess_solver [1 / 2, 1 / 10] init_model = Inr (Fin (17 / 100), ?m4)"
    by simp
  moreover have "alpha (par ?m4) = 1 / 2 \<and> sigma (par ?m4) = 1 / 10
      \<and> beta0 (sol ?m4) = Fin 0 \<and> beta1 (sol ?m4) = Fin 0"
    by (simp add: p3)
  ultimately show "\<exists>m'. est ols_solver guess_solver [1 / 2, 1 / 10] init_model = Inr (Fin (17 / 100), m')
      \<and> alpha (par m') = 1 / 2 \<and> sigma (par m') = 1 / 10
      \<and> beta0 (sol m') = Fin 0 \<and> beta1 (sol m') = Fin 0"
    by blast
next
  let ?m2 = "new_init_model\<lparr>par := (par new_init_model)\<lparr>sigma := 3 / 10\<rparr>\<rparr>"
  have ws: "wF_vec (par ?m2) = [4 / 5, 9 / 10, 1, 11 / 10, 6 / 5]"
    by (simp add: new_init_model_def new_init_par_def linspace_wF_norm)
  have n: "length (wF_vec (par ?m2)) = 5" unfolding ws by simp
  have len: "map length (vecs (sol ?m2)) = [5, 5, 5, 5]"
    by (simp add: new_init_model_def init_sol_def zeros_def vecs_def new_init_par_def linspace_wF_norm)
  have "\<exists>m3. sweep_loop (sweep_step new_solve_discrete (new_solve_cont guess_solver) False) [0..<5] ?m2
      = Inr m3"
  proof (rule sweep_loop_cont_total)
    show "\<exists>res. new_solve_cont guess_solver p = Inr res \<and> 4 \<le> length res" for p :: new_parameters
      by (simp add: new_solve_cont_guess)
    show "\<forall>it\<in>set [0..<5]. it < length (wF_vec (par ?m2)) \<and>
        list_all (\<lambda>v. it < length v) (vecs (sol ?m2))"
      unfolding n using len by (simp add: vecs_def)
  qed
  then obtain m3 where
    loop: "sweep_loop (sweep_step new_solve_discrete (new_solve_cont guess_solver) False) [0..<5] ?m2
      = Inr m3"
    by blast
  then have run: "new_solve_wF_vec guess_solver False ?m2 = Inr m3"
    unfolding new_solve_wF_vec_def solve_wF_vec_with_def n .
  have s3: "sol m3 = (sol ?m2)\<lparr>LM_vec := replicate 5 (Fin 4), HM_vec := replicate 5 (Fin 4),
                           LF_vec := replicate 5 (Fin 4), HF_vec := replicate 5 (Fin 4)\<rparr>"
    by (rule sweep_loop_const [OF loop new_solve_cont_guess len])
  have p3: "par m3 = (par ?m2)\<lparr>wF := 6 / 5\<rparr>"
    using sweep_loop_par [OF loop]
    by (simp add: new_init_model_def new_init_par_def linspace_wF_norm)
  let ?m4 = "m3\<lparr>sol := (sol m3)\<lparr>beta0 := Fin 0, beta1 := Fin 0\<rparr>\<rparr>"
  have reg: "run_regression ols_solver m3 = Inr ?m4"
    by (rule regression_after_guess) (simp_all add: p3 s3 new_init_model_def new_init_par_def linspace_wF_norm)
  have e: "new_est ols_solver guess_solver [3 / 10] new_init_model = Inr (objective ?m4, ?m4)"
    using run reg by (simp add: new_est_def get_def Let_def)
  from est_trial [where L = ols_solver and M = guess_solver and xB = "[3 / 10]"
      and mB = new_init_model and vB = "objective ?m4" and mB' = ?m4,
      THEN conjunct2, THEN conjunct1] e
  have "objective ?m4 = np_add (np_pow (np_sub (Fin (beta0_target (par ?m4))) (beta0 (sol ?m4))) 2)
                       (np_pow (np_sub (Fin (beta1_target (par ?m4))) (beta1 (sol ?m4))) 2)"
    by blast
  also have "\<dots> = Fin (17 / 100)"
    by (rule objective_value) (simp_all add: p3 new_init_model_def new_init_par_def)
  finally have "objective ?m4 = Fin (17 / 100)" .
  with e have "new_est ols_solver guess_solver [3 / 10] new_init_model = Inr (Fin (17 / 100), ?m4)"
    by simp
  moreover have "alpha (par ?m4) = 1 / 2 \<and> sigma (par ?m4) = 3 / 10
      \<and> beta0 (sol ?m4) = Fin 0 \<and> beta1 (sol ?m4) = Fin 0"
    by (simp add: p3 new_init_model_def new_init_par_def)
  ultimately show "\<exists>m'. new_est ols_solver guess_solver [3 / 10] new_init_model = Inr (Fin (17 / 100), m')
      \<and> alpha (par m') = 1 / 2 \<and> sigma (par m') = 3 / 10
      \<and> beta0 (sol m') = Fin 0 \<and> beta1 (sol m') = Fin 0"
    by blast
qed


section \<open>Properties of calc_utility on float64's range\<close>

lemma max_float_ge: "10 ^ 308 \<le> max_float"
  by (simp add: max_float_def)

lemma max_float_lt: "max_float < 10 ^ 309"
  by (simp add: max_float_def)

lemma max_float_pos: "0 < max_float"
proof -
  have "(0::real) < 10 ^ 308" by simp
  with max_float_ge show ?thesis by linarith
qed

lemma ovf_Fin: "\<bar>x\<bar> \<le> max_float \<Longrightarrow> ovf (Fin x) = Fin x"
  by (auto simp: abs_le_iff)

lemma ovf_small: "\<bar>x\<bar> \<le> 10 ^ 308 \<Longrightarrow> ovf (Fin x) = Fin x"
  using max_float_ge by (intro ovf_Fin) linarith

lemma ovf_Fin_D: "ovf v = Fin x \<Longrightarrow> v = Fin x \<and> \<bar>x\<bar> \<le> max_float"
  by (cases v) (auto split: if_splits)

lemma join_simps: "join Np k = Np" "join k Np = Np" "join Py Py = Py"
  by (simp_all add: join_def)

lemma f_pow_Np: "f_pow (Np, v) y = Inr (Np, ovf (np_pow v y))"
  by (simp add: f_pow_def)

lemma powr_bound:
  fixes x :: real
  assumes "0 < x" "x \<le> X" "1 \<le> X" "0 \<le> y" "y \<le> Y"
  shows "x powr y \<le> X powr Y"
proof (cases "x \<le> 1")
  case True
  then have "x powr y \<le> 1" using assms by (simp add: powr_le1)
  also have "1 \<le> X powr Y" using assms by (simp add: ge_one_powr_ge_zero)
  finally show ?thesis .
next
  case False
  then have "x powr y \<le> X powr y" using assms by (intro powr_mono2) auto
  also have "\<dots> \<le> X powr Y" using assms by (intro powr_mono) auto
  finally show ?thesis .
qed

lemma f_pow_bound:
  assumes "0 \<le> x" "x \<le> X" "1 \<le> X" "0 \<le> y" "y \<le> Y" "X powr Y \<le> max_float"
  shows "\<exists>r. f_pow (k, Fin x) y = Inr (k, Fin r) \<and> 0 \<le> r \<and> r \<le> X powr Y"
proof -
  have one: "1 \<le> X powr Y" using assms by (simp add: ge_one_powr_ge_zero)
  define r where "r = (if y = 0 then 1 else if x = 0 then 0 else x powr y)"
  have np: "np_pow (Fin x) y = Fin r" using assms(1,4) by (auto simp: r_def)
  have rb: "0 \<le> r \<and> r \<le> X powr Y"
  proof (cases "y = 0 \<or> x = 0")
    case True
    then show ?thesis using one by (auto simp: r_def)
  next
    case False
    then have "0 < x" using assms by simp
    from powr_bound [OF this assms(2,3,4,5)] False show ?thesis by (simp add: r_def)
  qed
  then have "\<bar>r\<bar> \<le> max_float" using assms(6) by simp
  then have o: "ovf (Fin r) = Fin r" by (rule ovf_Fin)
  have py: "py_pow (Fin x) y = Inr (Fin r)"
  proof (cases "y = 0")
    case True
    then show ?thesis by (simp add: r_def)
  next
    case False
    then have "py_pow (Fin x) y = (case ovf (np_pow (Fin x) y) of
              Fin r \<Rightarrow> Inr (Fin r) | _ \<Rightarrow> Inl OverflowError)"
      using assms(1,4) by simp
    then show ?thesis unfolding np o by simp
  qed
  show ?thesis
  proof (cases k)
    case Py
    then show ?thesis using py rb by (simp add: f_pow_def)
  next
    case Np
    then show ?thesis using np o rb by (simp add: f_pow_Np del: np_pow.simps)
  qed
qed

lemma one_le_max_float: "1 \<le> max_float"
proof -
  have "(1::real) \<le> 10 ^ 308" by simp
  with max_float_ge show ?thesis by linarith
qed

lemma f_pow_no_error:
  assumes "0 \<le> y" "y \<le> 1"
    "fst a = Np \<or> (\<forall>x. snd a = Fin x \<longrightarrow> 0 \<le> x \<and> x \<le> max_float)"
  shows "\<exists>r. f_pow a y = Inr r"
proof (cases "fst a")
  case Np
  then show ?thesis by (simp add: f_pow_def)
next
  case Py
  with assms(3) have v: "\<forall>x. snd a = Fin x \<longrightarrow> 0 \<le> x \<and> x \<le> max_float" by simp
  show ?thesis
  proof (cases "snd a")
    case (Fin x)
    with v have x: "0 \<le> x" "x \<le> max_float" by simp_all
    have m: "max_float powr 1 \<le> max_float" using max_float_pos by simp
    from f_pow_bound [OF x one_le_max_float assms(1,2) m, of Py]
    obtain r where "f_pow (Py, Fin x) y = Inr (Py, Fin r)" by blast
    moreover have "a = (Py, Fin x)" using Py Fin by (cases a) simp
    ultimately show ?thesis by simp
  qed (simp_all add: Py f_pow_def)
qed

lemma floor_powr: "0 < t \<Longrightarrow> (1 / 10 ^ 8 :: real) powr (- t) = (10 ^ 8) powr t"
  by (simp add: powr_divide powr_minus_divide)

lemma utility_core_finite:
  assumes "1 + 1 / 2 ^ 52 \<le> rh" "rh \<le> 39"
  shows "\<exists>u. utility_core_spec rh q = Inr (Np, Fin u) \<and> \<bar>u\<bar> \<le> 10 ^ 304"
proof -
  define t where "t = rh - 1"
  have t: "1 / 2 ^ 52 \<le> t" "t \<le> 38" using assms by (simp_all add: t_def)
  have "(0::real) < 1 / 2 ^ 52" by simp
  with t have tpos: "0 < t" by linarith
  have e: "1 - rh = - t" by (simp add: t_def)
  have cs: "np_fmax (snd q) (Fin (1 / 10 ^ 8)) = PInf
    \<or> (\<exists>x. np_fmax (snd q) (Fin (1 / 10 ^ 8)) = Fin x \<and> 1 / 10 ^ 8 \<le> x)"
  proof (cases "snd q")
    case (Fin a)
    have "np_fmax (Fin a) (Fin (1 / 10 ^ 8)) = Fin (max a (1 / 10 ^ 8))" by (rule np_fmax_Fin)
    moreover have "1 / 10 ^ 8 \<le> max a (1 / 10 ^ 8)" by (rule max.cobounded2)
    ultimately show ?thesis unfolding Fin by blast
  next
    case PInf
    then show ?thesis by (simp add: np_fmax_def isnan_def)
  next
    case NInf
    have "np_fmax NInf (Fin (1 / 10 ^ 8)) = Fin (1 / 10 ^ 8)" by (simp add: np_fmax_def isnan_def)
    moreover have "(1 / 10 ^ 8 :: real) \<le> 1 / 10 ^ 8" by (rule order_refl)
    ultimately show ?thesis unfolding NInf by blast
  next
    case NaN
    have "np_fmax NaN (Fin (1 / 10 ^ 8)) = Fin (1 / 10 ^ 8)" by (simp add: np_fmax_def isnan_def)
    moreover have "(1 / 10 ^ 8 :: real) \<le> 1 / 10 ^ 8" by (rule order_refl)
    ultimately show ?thesis unfolding NaN by blast
  qed
  then consider (inf) "np_fmax (snd q) (Fin (1 / 10 ^ 8)) = PInf"
    | (fin) x where "np_fmax (snd q) (Fin (1 / 10 ^ 8)) = Fin x" "1 / 10 ^ 8 \<le> x"
    by blast
  then show ?thesis
  proof cases
    case inf
    then have "utility_core_spec rh q = Inr (Np, Fin 0)"
      using tpos max_float_pos by (simp add: utility_core_spec_def f_fmax_def f_pow_Np e f_div_def)
    then show ?thesis by simp
  next
    case (fin x)
    then have xpos: "0 < x" by (smt (verit) zero_less_divide_1_iff zero_less_numeral zero_less_power)
    define w where "w = x powr (- t)"
    have wpos: "0 < w" using xpos by (simp add: w_def)
    have "w \<le> (1 / 10 ^ 8) powr (- t)"
      unfolding w_def using fin(2) tpos by (intro powr_mono2') auto
    also have "\<dots> = (10 ^ 8) powr t" using tpos by (rule floor_powr)
    finally have w1: "w \<le> (10 ^ 8) powr t" .
    have "(10 ^ 8 :: real) powr t \<le> (10 ^ 8) powr 38" using t by (intro powr_mono) auto
    also have "\<dots> = 10 ^ 304" by simp
    finally have w2: "w \<le> 10 ^ 304" using w1 by linarith
    have ow: "ovf (Fin w) = Fin w" using wpos w2 by (intro ovf_small) simp
    have ub: "w / t \<le> 10 ^ 304"
    proof (cases "1 \<le> t")
      case True
      then have "w / t \<le> w" using wpos by (simp add: field_simps)
      with w2 show ?thesis by linarith
    next
      case False
      then have "(10 ^ 8 :: real) powr t \<le> (10 ^ 8) powr 1" by (intro powr_mono) auto
      with w1 have w3: "w \<le> 10 ^ 8" by simp
      have "1 \<le> 2 ^ 52 * t" using t(1) by (simp add: field_simps)
      then have "(10 ^ 8 :: real) * 1 \<le> 10 ^ 8 * (2 ^ 52 * t)" by (intro mult_left_mono) auto
      with w3 have "w \<le> (10 ^ 8 * 2 ^ 52) * t" by simp
      then have "w / t \<le> 10 ^ 8 * 2 ^ 52" using tpos by (simp add: pos_divide_le_eq)
      also have "(10 ^ 8 * 2 ^ 52 :: real) \<le> 10 ^ 304" by simp
      finally show ?thesis .
    qed
    have upos: "0 \<le> w / t" using wpos tpos by simp
    have ou: "ovf (Fin (- (w / t))) = Fin (- (w / t))"
      using ub upos by (intro ovf_small) simp
    have np: "np_pow (Fin x) (- t) = Fin w" using xpos tpos by (simp add: w_def)
    have dv: "np_div (Fin w) (Fin (- t)) = Fin (- (w / t))" using tpos by simp
    have fd: "f_div (Np, Fin w) (- t) = Inr (Np, Fin (- (w / t)))"
      unfolding f_div_def fst_conv snd_conv dv ou by simp
    have "utility_core_spec rh q = Inr (Np, Fin (- (w / t)))"
      unfolding utility_core_spec_def f_fmax_def fin(1) f_pow_Np e np ow by (simp add: fd)
    moreover have "\<bar>- (w / t)\<bar> \<le> 10 ^ 304" using ub upos by simp
    ultimately show ?thesis by blast
  qed
qed


lemma pow48: "(48::real) powr 101 \<le> 10 ^ 170"
proof -
  have "(48::real) powr 101 = 48 ^ 101" by simp
  also have "\<dots> \<le> 10 ^ 170" by simp
  finally show ?thesis .
qed

lemma join_Py: "join Py k = k"
  by (cases k) (simp_all add: join_def)

lemma labor_term:
  assumes "1 \<le> e" "e \<le> 101" "0 \<le> a" "a \<le> 48"
  shows "\<exists>t r. f_pow (k, Fin a) e = Inr t \<and> f_div t e = Inr (k, Fin r) \<and> 0 \<le> r \<and> r \<le> 10 ^ 170"
proof -
  have "(10::real) ^ 170 \<le> 10 ^ 308" by simp
  with pow48 max_float_ge have m: "(48::real) powr 101 \<le> max_float" by linarith
  have e0: "0 \<le> e" using assms by simp
  have x1: "(1::real) \<le> 48" by simp
  from f_pow_bound [OF assms(3,4) x1 e0 assms(2) m, of k]
  obtain r where r: "f_pow (k, Fin a) e = Inr (k, Fin r)" "0 \<le> r" "r \<le> 48 powr 101" by blast
  have "r * 1 \<le> r * e" using assms(1) r(2) by (intro mult_left_mono) auto
  then have "r / e \<le> r" using assms(1) by (simp add: pos_divide_le_eq)
  with r(3) pow48 have b: "r / e \<le> 10 ^ 170" by linarith
  have b0: "0 \<le> r / e" using r(2) e0 by simp
  have "\<bar>r / e\<bar> \<le> 10 ^ 308" using b b0 by simp
  then have o: "ovf (Fin (r / e)) = Fin (r / e)" by (rule ovf_small)
  have ne: "e \<noteq> 0" using assms(1) by simp
  have dv: "np_div (Fin r) (Fin e) = Fin (r / e)" using ne by simp
  have "f_div (k, Fin r) e = Inr (k, Fin (r / e))"
    unfolding f_div_def fst_conv snd_conv dv o using ne by simp
  with r(1) b b0 show ?thesis by blast
qed

lemma disutility_spec_finite:
  assumes "1 \<le> e" "e \<le> 101" "\<bar>n\<bar> \<le> 10 ^ 6" "0 \<le> a" "a \<le> 48" "0 \<le> b" "b \<le> 48"
  shows "\<exists>d. disutility_spec n e (k, Fin a) (k', Fin b) = Inr (join k k', Fin d) \<and> \<bar>d\<bar> \<le> 10 ^ 177"
proof -
  from labor_term [OF assms(1,2,4,5), of k]
  obtain t1 r1 where 1: "f_pow (k, Fin a) e = Inr t1" "f_div t1 e = Inr (k, Fin r1)"
    "0 \<le> r1" "r1 \<le> 10 ^ 170" by blast
  from labor_term [OF assms(1,2,6,7), of k']
  obtain t3 r2 where 2: "f_pow (k', Fin b) e = Inr t3" "f_div t3 e = Inr (k', Fin r2)"
    "0 \<le> r2" "r2 \<le> 10 ^ 170" by blast
  have s: "0 \<le> r1 + r2" "r1 + r2 \<le> 2 * 10 ^ 170" using 1(3,4) 2(3,4) by simp_all
  then have "\<bar>r1 + r2\<bar> \<le> 10 ^ 308" by simp
  then have o1: "ovf (Fin (r1 + r2)) = Fin (r1 + r2)" by (rule ovf_small)
  have ad: "f_add (k, Fin r1) (k', Fin r2) = (join k k', Fin (r1 + r2))"
    unfolding f_add_def fst_conv snd_conv np_add.simps o1 by simp
  have "\<bar>n\<bar> * \<bar>r1 + r2\<bar> \<le> 10 ^ 6 * (2 * 10 ^ 170)"
    using assms(3) s by (intro mult_mono) auto
  then have nb: "\<bar>n * (r1 + r2)\<bar> \<le> 2 * 10 ^ 176" by (simp add: abs_mult)
  then have "\<bar>n * (r1 + r2)\<bar> \<le> 10 ^ 308" by simp
  then have o2: "ovf (Fin (n * (r1 + r2))) = Fin (n * (r1 + r2))" by (rule ovf_small)
  have ml: "f_mul (Py, Fin n) (join k k', Fin (r1 + r2)) = (join k k', Fin (n * (r1 + r2)))"
    unfolding f_mul_def fst_conv snd_conv np_mul.simps o2 join_Py by simp
  have "disutility_spec n e (k, Fin a) (k', Fin b) = Inr (join k k', Fin (n * (r1 + r2)))"
    by (simp add: disutility_spec_def 1(1,2) 2(1,2) ad ml)
  moreover have "\<bar>n * (r1 + r2)\<bar> \<le> 10 ^ 177" using nb by simp
  ultimately show ?thesis by blast
qed

lemma np_add_Fin_D: "np_add a b = Fin x \<Longrightarrow> \<exists>a' b'. a = Fin a' \<and> b = Fin b' \<and> x = a' + b'"
  by (cases a; cases b) auto

lemma market_consumption_nonneg:
  assumes "0 \<le> vm" "0 \<le> vf" "0 \<le> lm" "0 \<le> lf"
  shows "\<forall>x. snd (f_add (f_mul (Py, Fin vm) (k1, Fin lm)) (f_mul (Py, Fin vf) (k3, Fin lf))) = Fin x
           \<longrightarrow> 0 \<le> x \<and> x \<le> max_float"
proof (intro allI impI)
  fix x
  assume "snd (f_add (f_mul (Py, Fin vm) (k1, Fin lm)) (f_mul (Py, Fin vf) (k3, Fin lf))) = Fin x"
  then have "ovf (np_add (ovf (Fin (vm * lm))) (ovf (Fin (vf * lf)))) = Fin x"
    by (simp add: f_add_def f_mul_def del: ovf.simps)
  from ovf_Fin_D [OF this]
  have s: "np_add (ovf (Fin (vm * lm))) (ovf (Fin (vf * lf))) = Fin x" and b: "\<bar>x\<bar> \<le> max_float"
    by simp_all
  from np_add_Fin_D [OF s] obtain a' b' where
    ab: "ovf (Fin (vm * lm)) = Fin a'" "ovf (Fin (vf * lf)) = Fin b'" "x = a' + b'" by blast
  from ovf_Fin_D [OF ab(1)] have "a' = vm * lm" by simp
  moreover from ovf_Fin_D [OF ab(2)] have "b' = vf * lf" by simp
  ultimately have "0 \<le> x" using ab(3) assms by simp
  with b show "0 \<le> x \<and> x \<le> max_float" by simp
qed

lemma home_production_call_ok:
  assumes "0 \<le> alpha p" "alpha p \<le> 1" "0 \<le> hm" "hm \<le> 24" "0 \<le> hf" "hf \<le> 24"
  shows "\<exists>h kh a kf b.
      home_production_call p (k2, Fin hm) (k4, Fin hf) = Inr (h, (kh, Fin a), (kf, Fin b))
    \<and> 0 \<le> a \<and> a \<le> 24 \<and> 0 \<le> b \<and> b \<le> 24
    \<and> (fst h = Np \<or> (\<forall>x. snd h = Fin x \<longrightarrow> 0 \<le> x \<and> x \<le> max_float))"
proof -
  consider (leontief) "sigma p = 0" | (cobb) "sigma p = 1" | (ces) "sigma p \<noteq> 0" "sigma p \<noteq> 1"
    by blast
  then show ?thesis
  proof cases
    case leontief
    then have eq: "home_production_call p (k2, Fin hm) (k4, Fin hf)
        = Inr (f_minimum (k2, Fin hm) (k4, Fin hf), (k2, Fin hm), (k4, Fin hf))"
      by (simp add: home_production_call_def)
    have k: "fst (f_minimum (k2, Fin hm) (k4, Fin hf)) = Np" by (simp add: f_minimum_def)
    show ?thesis
      apply (intro exI conjI)
           apply (rule eq)
          apply (rule assms)+
      apply (rule disjI1)
      apply (rule k)
      done
  next
    case cobb
    have m: "(24::real) powr 1 \<le> max_float" using one_le_max_float max_float_ge by simp
    have x1: "(1::real) \<le> 24" by simp
    have e1: "0 \<le> 1 - alpha p" "1 - alpha p \<le> 1" using assms by simp_all
    from f_pow_bound [OF assms(3,4) x1 e1 m, of k2]
    obtain r1 where r1: "f_pow (k2, Fin hm) (1 - alpha p) = Inr (k2, Fin r1)" "0 \<le> r1" "r1 \<le> 24"
      by auto
    from f_pow_bound [OF assms(5,6) x1 assms(1,2) m, of k4]
    obtain r2 where r2: "f_pow (k4, Fin hf) (alpha p) = Inr (k4, Fin r2)" "0 \<le> r2" "r2 \<le> 24"
      by auto
    have "r1 * r2 \<le> 24 * 24" using r1 r2 by (intro mult_mono) auto
    then have pb: "0 \<le> r1 * r2" "r1 * r2 \<le> 576" using r1(2) r2(2) by simp_all
    then have "\<bar>r1 * r2\<bar> \<le> 10 ^ 308" by simp
    then have o: "ovf (Fin (r1 * r2)) = Fin (r1 * r2)" by (rule ovf_small)
    have ml: "f_mul (k2, Fin r1) (k4, Fin r2) = (join k2 k4, Fin (r1 * r2))"
      unfolding f_mul_def fst_conv snd_conv np_mul.simps o by simp
    have eq: "home_production_call p (k2, Fin hm) (k4, Fin hf)
        = Inr ((join k2 k4, Fin (r1 * r2)), (k2, Fin hm), (k4, Fin hf))"
      using cobb by (simp add: home_production_call_def r1(1) r2(1) ml)
    have "(576::real) \<le> 10 ^ 308" by simp
    with pb max_float_ge have "r1 * r2 \<le> max_float" by linarith
    with pb have k: "\<forall>x. snd (join k2 k4, Fin (r1 * r2)) = Fin x \<longrightarrow> 0 \<le> x \<and> x \<le> max_float"
      by simp
    show ?thesis
      apply (intro exI conjI)
           apply (rule eq)
          apply (rule assms)+
      apply (rule disjI2)
      apply (rule k)
      done
  next
    case ces
    define a where "a = max hm (1 / 10 ^ 7)"
    define b where "b = max hf (1 / 10 ^ 7)"
    have fm: "f_fmax (k2, Fin hm) (1 / 10 ^ 7) = (Np, Fin a)"
      "f_fmax (k4, Fin hf) (1 / 10 ^ 7) = (Np, Fin b)"
      unfolding f_fmax_def snd_conv np_fmax_Fin a_def b_def by (rule refl)+
    have ab: "0 \<le> a" "a \<le> 24" "0 \<le> b" "b \<le> 24" using assms by (simp_all add: a_def b_def)
    define s where "s = (sigma p - 1) / sigma p"
    define ins where "ins = f_add (f_mul (Py, Fin (1 - alpha p)) (Np, ovf (np_pow (Fin a) s)))
                                  (f_mul (Py, Fin (alpha p)) (Np, ovf (np_pow (Fin b) s)))"
    have ki: "fst ins = Np" by (simp add: ins_def f_add_def f_mul_def join_def)
    define h where "h = (Np, ovf (np_pow (snd ins) (sigma p / (sigma p - 1))))"
    have fp: "f_pow ins (sigma p / (sigma p - 1)) = Inr h"
      using ki by (simp add: f_pow_def h_def)
    have eq: "home_production_call p (k2, Fin hm) (k4, Fin hf) = Inr (h, (Np, Fin a), (Np, Fin b))"
      unfolding home_production_call_def fm Let_def f_pow_Np s_def [symmetric]
      using ces by (simp add: ins_def [symmetric] fp del: np_pow.simps ovf.simps)
    have k: "fst h = Np" by (simp add: h_def)
    show ?thesis
      apply (intro exI conjI)
           apply (rule eq)
          apply (rule ab)+
      apply (rule disjI1)
      apply (rule k)
      done
  qed
qed

lemma ovf_0: "ovf (Fin 0) = Fin 0"
  using max_float_pos by simp

lemma floor_overflow: "ovf (np_pow (Fin (1 / 10 ^ 8)) (- 39)) = PInf"
proof -
  have "(1 / 10 ^ 8 :: real) powr (- 39) = (10 ^ 8) powr 39" by (rule floor_powr) simp
  also have "\<dots> = 10 ^ 312" by simp
  finally have e: "(1 / 10 ^ 8 :: real) powr (- 39) = 10 ^ 312" .
  have "(10::real) ^ 309 < 10 ^ 312" by simp
  with max_float_lt have "max_float < 10 ^ 312" by linarith
  then have "ovf (Fin (10 ^ 312)) = PInf" by simp
  moreover have "np_pow (Fin (1 / 10 ^ 8)) (- 39) = Fin ((1 / 10 ^ 8) powr (- 39))"
    by (rule np_pow_pos') simp
  ultimately show ?thesis unfolding e by simp
qed

lemma floor_square: "ovf (np_pow (Fin (1 / 10 ^ 8)) (- 1)) = Fin (10 ^ 8)"
proof -
  have "(1 / 10 ^ 8 :: real) powr (- 1) = (10 ^ 8) powr 1" by (rule floor_powr) simp
  also have "\<dots> = 10 ^ 8" by simp
  finally have e: "(1 / 10 ^ 8 :: real) powr (- 1) = 10 ^ 8" .
  have "\<bar>10 ^ 8 :: real\<bar> \<le> 10 ^ 308" by simp
  then have "ovf (Fin (10 ^ 8)) = Fin (10 ^ 8)" by (rule ovf_small)
  moreover have "np_pow (Fin (1 / 10 ^ 8)) (- 1) = Fin ((1 / 10 ^ 8) powr (- 1))"
    by (rule np_pow_pos') simp
  ultimately show ?thesis unfolding e by simp
qed

lemma py_pow_0: "0 < y \<Longrightarrow> py_pow (Fin 0) y = Inr (Fin 0)"
  using max_float_pos by simp

lemma f_pow_Py_0: "0 < y \<Longrightarrow> f_pow (Py, Fin 0) y = Inr (Py, Fin 0)"
  by (simp add: f_pow_def py_pow_0 del: py_pow.simps)

lemma f_mul_Py_0: "f_mul (Py, Fin a) (Py, Fin 0) = (Py, Fin 0)"
  by (simp add: f_mul_def join_def ovf_0 del: ovf.simps(1))

lemma f_add_Py_0: "f_add (Py, Fin 0) (Py, Fin 0) = (Py, Fin 0)"
  by (simp add: f_add_def join_def ovf_0 del: ovf.simps(1))

lemma f_div_Py_0: "d \<noteq> 0 \<Longrightarrow> f_div (Py, Fin 0) d = Inr (Py, Fin 0)"
  by (simp add: f_div_def ovf_0 del: ovf.simps(1))

lemma zero_home: "home_production_call (init_par\<lparr>rho := r\<rparr>) (Py, Fin 0) (Py, Fin 0)
    = Inr ((Py, Fin 0), (Py, Fin 0), (Py, Fin 0))"
  by (simp add: home_production_call_def init_par_def f_pow_Py_0 f_mul_Py_0)

lemma zero_composite: "composite_good_spec (1 / 2) (Py, Fin 0) (Py, Fin 0) = Inr (Py, Fin 0)"
  by (simp add: composite_good_spec_def f_pow_Py_0 f_mul_Py_0)

lemma zero_disutility_spec: "disutility_spec (1 / 1000) 2 (Py, Fin 0) (Py, Fin 0) = Inr (Py, Fin 0)"
  by (simp add: disutility_spec_def f_pow_Py_0 f_div_Py_0 f_add_Py_0 f_mul_Py_0)

lemma zero_disutility: "disutility_call (init_par\<lparr>rho := r\<rparr>) (Py, Fin 0) (Py, Fin 0) (Py, Fin 0) (Py, Fin 0)
    = Inr (Py, Fin 0)"
  by (simp add: disutility_call_def init_par_def f_pow_Py_0 f_div_Py_0 f_add_Py_0 f_mul_Py_0)

lemma zero_market: "market_consumption_call (init_par\<lparr>rho := r\<rparr>) (Py, Fin 0) (Py, Fin 0) = (Py, Fin 0)"
  by (simp add: market_consumption_call_def init_par_def f_add_Py_0 f_mul_Py_0)

text \<open>
  Claim C8, as the source has it.  Let \<open>rho\<close> be a float64 above 1 and at most 39 (the
  float64 next to 1 is \<open>1 + 2^-52\<close>), \<open>omega\<close> and \<open>alpha\<close> in [0,1], the wages not negative,
  \<open>epsilon\<close> at least 0.01 and \<open>nu\<close> at most \<open>10^6\<close> in absolute value.  Then the
  consumption-utility term \<open>max(Q, 1e-8)^(1-rho)/(1-rho)\<close> is finite for every \<open>Q\<close>, zero,
  infinite or not-a-number, and for every Choice with components in [0,24], Python floats
  or numpy values, \<open>calc_utility\<close> raises nothing and returns the finite number \<open>u - d\<close>,
  where \<open>u\<close> is that term at \<open>Q = C^omega * H^(1-omega)\<close>, \<open>C = wM*LM + wF*LF\<close>, \<open>H\<close> the home
  production, and \<open>d = nu * (TM^e/e + TF^e/e)\<close> with \<open>e = 1 + 1/epsilon\<close>.
\<close>

theorem calc_utility_call_finite:
  fixes p :: "'a parameters_scheme"
  assumes "1 + 1 / 2 ^ 52 \<le> rho p" "rho p \<le> 39"
    "0 \<le> omega p" "omega p \<le> 1" "0 \<le> alpha p" "alpha p \<le> 1"
    "0 \<le> wM p" "0 \<le> wF p" "1 / 100 \<le> epsilon p" "\<bar>nu p\<bar> \<le> 10 ^ 6"
    "0 \<le> lm" "lm \<le> 24" "0 \<le> hm" "hm \<le> 24" "0 \<le> lf" "lf \<le> 24" "0 \<le> hf" "hf \<le> 24"
  shows "(\<forall>q. \<exists>u. utility_core_spec (rho p) q = Inr (Np, Fin u))
    \<and> (\<exists>h hm' hf' q u kd d.
          home_production_call p (k2, Fin hm) (k4, Fin hf) = Inr (h, hm', hf')
        \<and> composite_good_spec (omega p)
            (f_add (f_mul (Py, Fin (wM p)) (k1, Fin lm)) (f_mul (Py, Fin (wF p)) (k3, Fin lf))) h
            = Inr q
        \<and> utility_core_spec (rho p) q = Inr (Np, Fin u)
        \<and> disutility_spec (nu p) (1 + 1 / epsilon p)
            (f_add (k1, Fin lm) hm') (f_add (k3, Fin lf) hf') = Inr (kd, Fin d)
        \<and> calc_utility_call p (k1, Fin lm) (k2, Fin hm) (k3, Fin lf) (k4, Fin hf)
            = Inr (Np, Fin (u - d)))"
proof (rule conjI)
  show "\<forall>q. \<exists>u. utility_core_spec (rho p) q = Inr (Np, Fin u)"
  proof
    fix q
    from utility_core_finite [OF assms(1,2), of q] show "\<exists>u. utility_core_spec (rho p) q = Inr (Np, Fin u)"
      by blast
  qed
next
  define c where "c = f_add (f_mul (Py, Fin (wM p)) (k1, Fin lm)) (f_mul (Py, Fin (wF p)) (k3, Fin lf))"
  from home_production_call_ok [OF assms(5,6,13,14,17,18), of k2 k4]
  obtain h kh a kf b where
    hp: "home_production_call p (k2, Fin hm) (k4, Fin hf) = Inr (h, (kh, Fin a), (kf, Fin b))"
    and ab: "0 \<le> a" "a \<le> 24" "0 \<le> b" "b \<le> 24"
    and hh: "fst h = Np \<or> (\<forall>x. snd h = Fin x \<longrightarrow> 0 \<le> x \<and> x \<le> max_float)"
    by blast
  have cv: "fst c = Np \<or> (\<forall>x. snd c = Fin x \<longrightarrow> 0 \<le> x \<and> x \<le> max_float)"
    unfolding c_def using market_consumption_nonneg [OF assms(7,8,11,15)] by (rule disjI2)
  from f_pow_no_error [OF assms(3,4) cv] obtain ca where ca: "f_pow c (omega p) = Inr ca" by blast
  have om: "0 \<le> 1 - omega p" "1 - omega p \<le> 1" using assms(3,4) by simp_all
  from f_pow_no_error [OF om hh] obtain hb where hb: "f_pow h (1 - omega p) = Inr hb" by blast
  define q where "q = f_mul ca hb"
  have cg: "composite_good_spec (omega p) c h = Inr q"
    by (simp add: composite_good_spec_def ca hb q_def)
  from utility_core_finite [OF assms(1,2), of q]
  obtain u where u: "utility_core_spec (rho p) q = Inr (Np, Fin u)" "\<bar>u\<bar> \<le> 10 ^ 304" by blast
  have cu: "consumption_utility_call p c h = Inr (Np, Fin u)"
    using u(1) by (simp add: consumption_utility_call_def ca hb q_def utility_core_spec_def)
  have tb: "0 \<le> lm + a" "lm + a \<le> 48" "0 \<le> lf + b" "lf + b \<le> 48"
    using assms(11,12,15,16) ab by simp_all
  have "\<bar>lm + a\<bar> \<le> 10 ^ 308" using tb by simp
  then have o1: "ovf (Fin (lm + a)) = Fin (lm + a)" by (rule ovf_small)
  have "\<bar>lf + b\<bar> \<le> 10 ^ 308" using tb by simp
  then have o2: "ovf (Fin (lf + b)) = Fin (lf + b)" by (rule ovf_small)
  have tm: "f_add (k1, Fin lm) (kh, Fin a) = (join k1 kh, Fin (lm + a))"
    unfolding f_add_def fst_conv snd_conv np_add.simps o1 by (rule refl)
  have tf: "f_add (k3, Fin lf) (kf, Fin b) = (join k3 kf, Fin (lf + b))"
    unfolding f_add_def fst_conv snd_conv np_add.simps o2 by (rule refl)
  have "(0::real) < 1 / 100" by simp
  with assms(9) have ep: "0 < epsilon p" by linarith
  have "1 \<le> 100 * epsilon p" using assms(9) by simp
  then have "1 / epsilon p \<le> 100" using ep by (simp add: pos_divide_le_eq)
  then have e2: "1 + 1 / epsilon p \<le> 101" by simp
  have e1: "1 \<le> 1 + 1 / epsilon p" using ep by simp
  from disutility_spec_finite [OF e1 e2 assms(10) tb, of "join k1 kh" "join k3 kf"]
  obtain d where d: "disutility_spec (nu p) (1 + 1 / epsilon p)
        (join k1 kh, Fin (lm + a)) (join k3 kf, Fin (lf + b))
        = Inr (join (join k1 kh) (join k3 kf), Fin d)" "\<bar>d\<bar> \<le> 10 ^ 177" by blast
  have ds: "disutility_spec (nu p) (1 + 1 / epsilon p)
        (f_add (k1, Fin lm) (kh, Fin a)) (f_add (k3, Fin lf) (kf, Fin b))
        = Inr (join (join k1 kh) (join k3 kf), Fin d)"
    unfolding tm tf by (rule d(1))
  have dc: "disutility_call p (k1, Fin lm) (kh, Fin a) (k3, Fin lf) (kf, Fin b)
        = Inr (join (join k1 kh) (join k3 kf), Fin d)"
    using ds ep by (simp add: disutility_call_def disutility_spec_def Let_def)
  have "\<bar>u - d\<bar> \<le> \<bar>u\<bar> + \<bar>d\<bar>" by (rule abs_triangle_ineq4)
  also have "\<dots> \<le> 10 ^ 304 + 10 ^ 177" using u(2) d(2) by (rule add_mono)
  also have "\<dots> \<le> (10 ^ 308 :: real)" by simp
  finally have o3: "ovf (Fin (u - d)) = Fin (u - d)" by (rule ovf_small)
  have sb: "np_sub (Fin u) (Fin d) = Fin (u - d)" by (simp add: np_sub_def)
  have fs: "f_sub (Np, Fin u) (join (join k1 kh) (join k3 kf), Fin d) = (Np, Fin (u - d))"
    unfolding f_sub_def fst_conv snd_conv sb o3 join_simps by (rule refl)
  have cc: "calc_utility_call p (k1, Fin lm) (k2, Fin hm) (k3, Fin lf) (k4, Fin hf)
      = Inr (Np, Fin (u - d))"
    by (simp add: calc_utility_call_def market_consumption_call_def c_def [symmetric] hp cu dc fs)
  show "\<exists>h hm' hf' q u kd d.
          home_production_call p (k2, Fin hm) (k4, Fin hf) = Inr (h, hm', hf')
        \<and> composite_good_spec (omega p)
            (f_add (f_mul (Py, Fin (wM p)) (k1, Fin lm)) (f_mul (Py, Fin (wF p)) (k3, Fin lf))) h
            = Inr q
        \<and> utility_core_spec (rho p) q = Inr (Np, Fin u)
        \<and> disutility_spec (nu p) (1 + 1 / epsilon p)
            (f_add (k1, Fin lm) hm') (f_add (k3, Fin lf) hf') = Inr (kd, Fin d)
        \<and> calc_utility_call p (k1, Fin lm) (k2, Fin hm) (k3, Fin lf) (k4, Fin hf)
            = Inr (Np, Fin (u - d))"
    apply (intro exI conjI)
        apply (rule hp)
       apply (rule cg [unfolded c_def])
      apply (rule u(1))
     apply (rule ds)
    apply (rule cc)
    done
qed

theorem calc_utility_call_finite_witness:
  "calc_utility_call init_par (Py, Fin 0) (Py, Fin 0) (Py, Fin 0) (Py, Fin 0)
     = Inr (Np, Fin (- (10 ^ 8)))"
proof -
  have p: "init_par\<lparr>rho := 2\<rparr> = init_par" by (simp add: init_par_def)
  have "\<exists>h hm' hf' q u kd d.
          home_production_call init_par (Py, Fin 0) (Py, Fin 0) = Inr (h, hm', hf')
        \<and> composite_good_spec (omega init_par)
            (f_add (f_mul (Py, Fin (wM init_par)) (Py, Fin 0)) (f_mul (Py, Fin (wF init_par)) (Py, Fin 0))) h
            = Inr q
        \<and> utility_core_spec (rho init_par) q = Inr (Np, Fin u)
        \<and> disutility_spec (nu init_par) (1 + 1 / epsilon init_par)
            (f_add (Py, Fin 0) hm') (f_add (Py, Fin 0) hf') = Inr (kd, Fin d)
        \<and> calc_utility_call init_par (Py, Fin 0) (Py, Fin 0) (Py, Fin 0) (Py, Fin 0)
            = Inr (Np, Fin (u - d))"
    by (rule calc_utility_call_finite [of init_par 0 0 0 0 Py Py Py Py, THEN conjunct2])
       (simp_all add: init_par_def)
  then obtain h hm' hf' q u kd d where
    1: "home_production_call init_par (Py, Fin 0) (Py, Fin 0) = Inr (h, hm', hf')"
    and 2: "composite_good_spec (omega init_par)
            (f_add (f_mul (Py, Fin (wM init_par)) (Py, Fin 0)) (f_mul (Py, Fin (wF init_par)) (Py, Fin 0))) h
            = Inr q"
    and 3: "utility_core_spec (rho init_par) q = Inr (Np, Fin u)"
    and 4: "disutility_spec (nu init_par) (1 + 1 / epsilon init_par)
            (f_add (Py, Fin 0) hm') (f_add (Py, Fin 0) hf') = Inr (kd, Fin d)"
    and 5: "calc_utility_call init_par (Py, Fin 0) (Py, Fin 0) (Py, Fin 0) (Py, Fin 0)
            = Inr (Np, Fin (u - d))"
    by blast
  have "Inr (h, hm', hf') = (Inr ((Py, Fin 0), (Py, Fin 0), (Py, Fin 0)) :: error + val \<times> val \<times> val)"
    using 1 zero_home [of 2] unfolding p by (rule trans [OF sym])
  then have "h = (Py, Fin 0) \<and> hm' = (Py, Fin 0) \<and> hf' = (Py, Fin 0)"
    by (simp only: sum.inject prod.inject)
  then have h: "h = (Py, Fin 0)" "hm' = (Py, Fin 0)" "hf' = (Py, Fin 0)"
    by (rule conjunct1, rule conjunct2 [THEN conjunct1], rule conjunct2 [THEN conjunct2])
  have par: "omega init_par = 1 / 2" "wM init_par = 1" "wF init_par = 1" "rho init_par = 2"
    "nu init_par = 1 / 1000" "1 + 1 / epsilon init_par = 2"
    by (simp_all add: init_par_def)
  from 2 have q: "q = (Py, Fin 0)"
    unfolding h par f_mul_Py_0 f_add_Py_0 zero_composite by simp
  have "utility_core_spec 2 (Py, Fin 0) = Inr (Np, Fin (- (10 ^ 8)))"
    using floor_square
    by (simp add: utility_core_spec_def f_fmax_def f_pow_Np f_div_def ovf_small
        del: np_pow.simps ovf.simps(1))
  with 3 have u: "u = - (10 ^ 8)" unfolding q par by simp
  from 4 have d: "d = 0" unfolding h par f_add_Py_0 zero_disutility_spec by simp
  from 5 show ?thesis unfolding u d by simp
qed

text \<open>
  Beyond that range of \<open>rho\<close> the value need not be finite.  At the defaults with
  \<open>rho = 40\<close> and the Choice \<open>(0, 0, 0, 0)\<close>, \<open>Q\<close> is 0 and is floored to \<open>1e-8\<close>;
  \<open>1e-8 ** -39\<close> is \<open>10^312\<close>, beyond the largest float64, so numpy returns infinity, the
  division by \<open>1 - rho = -39\<close> makes it minus infinity, and \<open>calc_utility\<close> returns minus
  infinity.
\<close>

theorem calc_utility_overflow:
  "calc_utility_call (init_par\<lparr>rho := 40\<rparr>) (Py, Fin 0) (Py, Fin 0) (Py, Fin 0) (Py, Fin 0)
     = Inr (Np, NInf)"
proof -
  have "consumption_utility_call (init_par\<lparr>rho := 40\<rparr>) (Py, Fin 0) (Py, Fin 0) = Inr (Np, NInf)"
    using floor_overflow
    by (simp add: consumption_utility_call_def init_par_def f_pow_Py_0 f_mul_Py_0 f_fmax_def
        f_pow_Np f_div_def del: np_pow.simps ovf.simps(1))
  then show ?thesis
    by (simp add: calc_utility_call_def zero_market zero_home zero_disutility f_sub_def np_sub_def join_def)
qed


end
